theory Spec2Isabelle
  imports Complex_Main "HOL-Library.Multiset" "HOL-Library.Sublist"
    "HOL-Library.Product_Lexorder" "HOL-Library.Word"
begin

section \<open>NumPy arrays and the operations the notebook calls\<close>

text \<open>
  The notebook \<^verbatim>\<open>02-solutions-vector_database.ipynb\<close> defines
  \<^verbatim>\<open>
  def k_closest_vectors(target_vec: np.ndarray, vectors: np.ndarray, k: int) -> np.ndarray:
      distances = np.sqrt(np.sum((vectors - target_vec) ** 2, axis=1))
      k_closest_indices = np.argsort(distances)[:k]
      closest_vectors = vectors[k_closest_indices]
      return closest_vectors
  \<close>
  \<open>vectors\<close> is a two-dimensional array and \<open>target_vec\<close> a one-dimensional one. A
  two-dimensional array keeps its column count beside its rows, so that an array of
  shape \<open>(0, d)\<close> still has a \<open>d\<close>; it is well formed when every row has that many
  entries. A one-dimensional array is a list. An exception of NumPy is a value of
  \<open>np_error\<close>.
\<close>

datatype np_error = ValueError | IndexError | TypeError

record 'a ndarray2 =
  ncols :: nat
  rows :: "'a list list"

definition wf_ndarray2 :: "'a ndarray2 \<Rightarrow> bool" where
  "wf_ndarray2 m \<longleftrightarrow> list_all (\<lambda>r. length r = ncols m) (rows m)"

definition nrows :: "'a ndarray2 \<Rightarrow> nat" where
  "nrows m = length (rows m)"

text \<open>
  The arithmetic of the function is the arithmetic of the arrays' element type, not
  that of the real numbers: \<open>float64\<close> entries are rounded after every operation,
  \<open>int64\<close> entries wrap around. The model is therefore written over an arbitrary
  element type \<open>'a\<close> and takes the element operations from a record: the
  subtraction, the square \<^verbatim>\<open>** 2\<close>, the sum of one row as \<^verbatim>\<open>np.sum\<close> adds it up (the
  order of its additions is NumPy's), the square root, whose results may be of
  another type \<open>'d\<close>, and the place \<open>sort_rank\<close> of a distance in the total order
  by which NumPy sorts (for floats: the numbers in their order, infinities at the
  ends, \<^verbatim>\<open>nan\<close> last).
\<close>

record ('a, 'd, 'k) dtype =
  elt_sub :: "'a \<Rightarrow> 'a \<Rightarrow> 'a"
  elt_square :: "'a \<Rightarrow> 'a"
  row_sum :: "'a list \<Rightarrow> 'a"
  elt_sqrt :: "'a \<Rightarrow> 'd"
  sort_rank :: "'d \<Rightarrow> 'k"

text \<open>
  Broadcasting of the trailing axis of the shapes \<open>(n, d)\<close> and \<open>(d',)\<close>: equal
  lengths go through, a length of one is stretched to the other, anything else raises
  \<^verbatim>\<open>ValueError: operands could not be broadcast together\<close>.
\<close>

definition broadcast_shape :: "nat \<Rightarrow> nat \<Rightarrow> np_error + nat" where
  "broadcast_shape d d' =
     (if d = d' then Inr d
      else if d = 1 then Inr d'
      else if d' = 1 then Inr d
      else Inl ValueError)"

definition broadcast_to :: "nat \<Rightarrow> 'a list \<Rightarrow> 'a list" where
  "broadcast_to d xs = (if length xs = d then xs else replicate d (hd xs))"

definition np_subtract ::
  "('a, 'd, 'k) dtype \<Rightarrow> 'a ndarray2 \<Rightarrow> 'a list \<Rightarrow> np_error + 'a ndarray2" where
  "np_subtract A m t =
     (case broadcast_shape (ncols m) (length t) of
        Inl e \<Rightarrow> Inl e
      | Inr d \<Rightarrow>
          Inr \<lparr>ncols = d,
               rows = map (\<lambda>r. map2 (elt_sub A) (broadcast_to d r) (broadcast_to d t))
                        (rows m)\<rparr>)"

definition np_square :: "('a, 'd, 'k) dtype \<Rightarrow> 'a ndarray2 \<Rightarrow> 'a ndarray2" where
  "np_square A m = \<lparr>ncols = ncols m, rows = map (map (elt_square A)) (rows m)\<rparr>"

definition np_sum_axis1 :: "('a, 'd, 'k) dtype \<Rightarrow> 'a ndarray2 \<Rightarrow> 'a list" where
  "np_sum_axis1 A m = map (row_sum A) (rows m)"

definition np_sqrt :: "('a, 'd, 'k) dtype \<Rightarrow> 'a list \<Rightarrow> 'd list" where
  "np_sqrt A v = map (elt_sqrt A) v"

text \<open>
  The slice \<^verbatim>\<open>a[:k]\<close> never raises: a \<open>k\<close> beyond the length stops at the end, a
  negative \<open>k\<close> counts from the end.
\<close>

definition slice_to :: "'a list \<Rightarrow> int \<Rightarrow> 'a list" where
  "slice_to xs k =
     (if k < 0 then take (nat (int (length xs) + k)) xs else take (nat k) xs)"

text \<open>
  Indexing a matrix with an array of row indices copies those rows, in the order of
  the indices; an index beyond the rows raises \<^verbatim>\<open>IndexError\<close>.
\<close>

definition np_take :: "'a ndarray2 \<Rightarrow> nat list \<Rightarrow> np_error + 'a ndarray2" where
  "np_take m idx =
     (if list_all (\<lambda>i. i < nrows m) idx
      then Inr \<lparr>ncols = ncols m, rows = map (\<lambda>i. rows m ! i) idx\<rparr>
      else Inl IndexError)"

text \<open>
  \<^verbatim>\<open>np.argsort\<close> is NumPy's. Its default sort is not stable, so all that is known of
  it is its contract: it returns a permutation of the indices along which the array
  is non-decreasing in NumPy's sort order. The function is a parameter of the model,
  and two calls need not break ties alike; \<open>argsort_stable\<close> is one function that
  meets the contract, the one that keeps equal entries in their order.
\<close>

definition argsort_spec ::
  "('a, 'd, 'k :: linorder) dtype \<Rightarrow> ('d list \<Rightarrow> nat list) \<Rightarrow> bool" where
  "argsort_spec A argsort \<longleftrightarrow>
     (\<forall>ds. mset (argsort ds) = mset [0..<length ds] \<and>
           sorted (map (\<lambda>i. sort_rank A (ds ! i)) (argsort ds)))"

definition argsort_stable :: "('a, 'd, 'k :: linorder) dtype \<Rightarrow> 'd list \<Rightarrow> nat list" where
  "argsort_stable A ds = sort_key (\<lambda>i. sort_rank A (ds ! i)) [0..<length ds]"

section \<open>The brute-force nearest-neighbour search\<close>

definition k_closest_vectors ::
  "('a, 'd, 'k) dtype \<Rightarrow> ('d list \<Rightarrow> nat list) \<Rightarrow> 'a list \<Rightarrow> 'a ndarray2 \<Rightarrow> int
     \<Rightarrow> np_error + 'a ndarray2" where
  "k_closest_vectors A argsort target_vec vectors k =
     (case np_subtract A vectors target_vec of
        Inl e \<Rightarrow> Inl e
      | Inr diff \<Rightarrow>
          (let distances = np_sqrt A (np_sum_axis1 A (np_square A diff));
               k_closest_indices = slice_to (argsort distances) k
           in np_take vectors k_closest_indices))"

text \<open>
  The distance from the query to one row as the body computes it, in the arrays'
  arithmetic; its place in the sort order; and the array of the computed distances
  of all rows.
\<close>

definition computed_distance :: "('a, 'd, 'k) dtype \<Rightarrow> 'a list \<Rightarrow> 'a list \<Rightarrow> 'd" where
  "computed_distance A target_vec row =
     elt_sqrt A (row_sum A (map (elt_square A) (map2 (elt_sub A) row target_vec)))"

definition distance_rank :: "('a, 'd, 'k) dtype \<Rightarrow> 'a list \<Rightarrow> 'a list \<Rightarrow> 'k" where
  "distance_rank A target_vec row = sort_rank A (computed_distance A target_vec row)"

definition distances_of :: "('a, 'd, 'k) dtype \<Rightarrow> 'a list \<Rightarrow> 'a ndarray2 \<Rightarrow> 'd list" where
  "distances_of A target_vec vectors = map (computed_distance A target_vec) (rows vectors)"

text \<open>
  The Euclidean distance of two real vectors as the notebook's table of metrics
  writes it, the square root of the sum over \<open>i\<close> of \<open>(a\<^sub>i - b\<^sub>i)\<^sup>2\<close>, and the exact
  arithmetic of the real numbers, in which nothing is rounded.
\<close>

definition euclidean :: "real list \<Rightarrow> real list \<Rightarrow> real" where
  "euclidean a b = sqrt (\<Sum>i\<leftarrow>[0..<length a]. (a ! i - b ! i)\<^sup>2)"

definition exact :: "(real, real, real) dtype" where
  "exact = \<lparr>elt_sub = (-), elt_square = (\<lambda>x. x\<^sup>2), row_sum = sum_list, elt_sqrt = sqrt,
            sort_rank = (\<lambda>x. x)\<rparr>"

section \<open>The arithmetic of float64\<close>

text \<open>
  The arrays of the notebook come from \<^verbatim>\<open>np.random.uniform\<close>: their entries are IEEE
  binary64 numbers. Such a number is an infinity, \<^verbatim>\<open>nan\<close>, or a real number with a
  significand of 53 bits (signed zeros are not told apart). Every operation computes
  the exact result and rounds it to the nearest such number, to the even significand
  when two are equally near; a result beyond the largest number becomes an infinity.
  \<open>binade\<close> is the exponent of a real number, no less than the exponent of the
  subnormal numbers, and \<open>ulp\<close> the distance of neighbouring numbers there.
\<close>

datatype f64 = NegInf | Fin real | PosInf | NaN

definition binade :: "real \<Rightarrow> int" where
  "binade x = max \<lfloor>log 2 \<bar>x\<bar>\<rfloor> (- 1022)"

definition ulp :: "real \<Rightarrow> real" where
  "ulp x = 2 powr real_of_int (binade x - 52)"

definition round_half_even :: "real \<Rightarrow> int" where
  "round_half_even y =
     (if y - of_int \<lfloor>y\<rfloor> < 1 / 2 then \<lfloor>y\<rfloor>
      else if 1 / 2 < y - of_int \<lfloor>y\<rfloor> then \<lfloor>y\<rfloor> + 1
      else if even \<lfloor>y\<rfloor> then \<lfloor>y\<rfloor>
      else \<lfloor>y\<rfloor> + 1)"

definition max_f64 :: real where
  "max_f64 = (2 ^ 53 - 1) * 2 ^ 971"

definition round_f64 :: "real \<Rightarrow> f64" where
  "round_f64 x =
     (let r = (if x = 0 then 0 else of_int (round_half_even (x / ulp x)) * ulp x)
      in if max_f64 < r then PosInf else if r < - max_f64 then NegInf else Fin r)"

fun f64_sub :: "f64 \<Rightarrow> f64 \<Rightarrow> f64" where
  "f64_sub NaN y = NaN"
| "f64_sub x NaN = NaN"
| "f64_sub (Fin a) (Fin b) = round_f64 (a - b)"
| "f64_sub PosInf PosInf = NaN"
| "f64_sub NegInf NegInf = NaN"
| "f64_sub PosInf y = PosInf"
| "f64_sub NegInf y = NegInf"
| "f64_sub x PosInf = NegInf"
| "f64_sub x NegInf = PosInf"

fun f64_add :: "f64 \<Rightarrow> f64 \<Rightarrow> f64" where
  "f64_add NaN y = NaN"
| "f64_add x NaN = NaN"
| "f64_add (Fin a) (Fin b) = round_f64 (a + b)"
| "f64_add PosInf NegInf = NaN"
| "f64_add NegInf PosInf = NaN"
| "f64_add PosInf y = PosInf"
| "f64_add NegInf y = NegInf"
| "f64_add x PosInf = PosInf"
| "f64_add x NegInf = NegInf"

fun f64_square :: "f64 \<Rightarrow> f64" where
  "f64_square NaN = NaN"
| "f64_square (Fin a) = round_f64 (a * a)"
| "f64_square PosInf = PosInf"
| "f64_square NegInf = PosInf"

fun f64_sqrt :: "f64 \<Rightarrow> f64" where
  "f64_sqrt NaN = NaN"
| "f64_sqrt (Fin a) = (if a < 0 then NaN else round_f64 (sqrt a))"
| "f64_sqrt PosInf = PosInf"
| "f64_sqrt NegInf = NaN"

text \<open>
  \<^verbatim>\<open>np.sum\<close> adds the entries of a row in an order of its own choosing (in blocks,
  for long rows). For a row of one or two entries every order gives the same sum;
  \<open>f64_sum\<close> adds the entries from left to right, which is the sum of the short rows
  evaluated below. The general facts are proved for every \<open>row_sum\<close>, so that they do
  not depend on this order.
\<close>

definition f64_sum :: "f64 list \<Rightarrow> f64" where
  "f64_sum xs = foldl f64_add (Fin 0) xs"

fun f64_rank :: "f64 \<Rightarrow> nat \<times> real" where
  "f64_rank NegInf = (0, 0)"
| "f64_rank (Fin a) = (1, a)"
| "f64_rank PosInf = (2, 0)"
| "f64_rank NaN = (3, 0)"

definition float64 :: "(f64, f64, nat \<times> real) dtype" where
  "float64 = \<lparr>elt_sub = f64_sub, elt_square = f64_square, row_sum = f64_sum,
              elt_sqrt = f64_sqrt, sort_rank = f64_rank\<rparr>"

text \<open>The real number that a finite float64 stands for.\<close>

fun f64_value :: "f64 \<Rightarrow> real" where
  "f64_value (Fin a) = a"
| "f64_value x = 0"

section \<open>The arithmetic of int64\<close>

text \<open>
  An array of integers has the element type \<^verbatim>\<open>int64\<close>. Its difference, its square and
  its sum wrap around modulo \<open>2\<^sup>6\<^sup>4\<close>, as the operations on a word of 64 bits do.
  \<^verbatim>\<open>np.sqrt\<close> converts the signed value of the sum to float64 and takes the root
  there, so the distances of an integer array are float64 numbers, \<^verbatim>\<open>nan\<close> for a sum
  that has wrapped to a negative value.
\<close>

definition int64 :: "(64 word, f64, nat \<times> real) dtype" where
  "int64 = \<lparr>elt_sub = (-), elt_square = (\<lambda>x. x * x), row_sum = foldl (+) 0,
            elt_sqrt = (\<lambda>x. f64_sqrt (round_f64 (real_of_int (sint x)))),
            sort_rank = f64_rank\<rparr>"

section \<open>A linear scan for comparison\<close>

text \<open>
  This definition follows the words of the specification, not the code: a textbook
  linear scan that goes over the rows one by one, computes each row's distance to
  the query, and keeps the \<open>k\<close> rows of smallest distance seen so far, nearest
  first. It computes a distance in the same arithmetic as \<open>k_closest_vectors\<close>, with
  which it is compared.
\<close>

definition scan_step ::
  "('a, 'd, 'k :: linorder) dtype \<Rightarrow> 'a list \<Rightarrow> nat \<Rightarrow> ('k \<times> 'a list) list \<Rightarrow> 'a list
     \<Rightarrow> ('k \<times> 'a list) list" where
  "scan_step A target k best row =
     take k (insort_key fst (distance_rank A target row, row) best)"

definition linear_scan_knn ::
  "('a, 'd, 'k :: linorder) dtype \<Rightarrow> 'a list \<Rightarrow> 'a list list \<Rightarrow> nat \<Rightarrow> 'a list list" where
  "linear_scan_knn A target vs k = map snd (foldl (scan_step A target k) [] vs)"

section \<open>The search over a store of arrays\<close>

text \<open>
  Python passes arrays by reference. To speak of what a call leaves untouched, the
  same function is written once more over an explicit store: a list of arrays, an
  array's address being its position. Each NumPy call of the body reads its operands
  from the store and allocates its result at the next free address; nothing in the
  body assigns into an existing array. (The slice is a view in NumPy: a new array
  object over the buffer of the freshly allocated argsort result, so it never shares
  with an argument.) A reference that does not hold an array of the kind an
  operation is modelled for is reported as \<open>TypeError\<close>.
\<close>

datatype ('a, 'd) array =
  Arr1 "'a list" | Arr2 "'a ndarray2" | ArrD "'d list" | ArrI "nat list"

type_synonym ('a, 'd) heap = "('a, 'd) array list"

type_synonym ('a, 'd, 'r) np = "('a, 'd) heap \<Rightarrow> (np_error + 'r) \<times> ('a, 'd) heap"

definition lookup :: "('a, 'd) heap \<Rightarrow> nat \<Rightarrow> ('a, 'd) array option" where
  "lookup h p = (if p < length h then Some (h ! p) else None)"

definition new_array :: "('a, 'd) array \<Rightarrow> ('a, 'd, nat) np" where
  "new_array a h = (Inr (length h), h @ [a])"

definition np_raise :: "np_error \<Rightarrow> ('a, 'd, 'r) np" where
  "np_raise e h = (Inl e, h)"

definition np_bind :: "('a, 'd, 'r) np \<Rightarrow> ('r \<Rightarrow> ('a, 'd, 's) np) \<Rightarrow> ('a, 'd, 's) np" where
  "np_bind f g h = (case f h of (Inl e, h') \<Rightarrow> (Inl e, h') | (Inr x, h') \<Rightarrow> g x h')"

definition read1 :: "nat \<Rightarrow> ('a, 'd, 'a list) np" where
  "read1 p h = (case lookup h p of Some (Arr1 v) \<Rightarrow> (Inr v, h) | _ \<Rightarrow> (Inl TypeError, h))"

definition read2 :: "nat \<Rightarrow> ('a, 'd, 'a ndarray2) np" where
  "read2 p h = (case lookup h p of Some (Arr2 m) \<Rightarrow> (Inr m, h) | _ \<Rightarrow> (Inl TypeError, h))"

definition readD :: "nat \<Rightarrow> ('a, 'd, 'd list) np" where
  "readD p h = (case lookup h p of Some (ArrD v) \<Rightarrow> (Inr v, h) | _ \<Rightarrow> (Inl TypeError, h))"

definition readI :: "nat \<Rightarrow> ('a, 'd, nat list) np" where
  "readI p h = (case lookup h p of Some (ArrI i) \<Rightarrow> (Inr i, h) | _ \<Rightarrow> (Inl TypeError, h))"

definition new_matrix :: "np_error + 'a ndarray2 \<Rightarrow> ('a, 'd, nat) np" where
  "new_matrix r = (case r of Inl e \<Rightarrow> np_raise e | Inr m \<Rightarrow> new_array (Arr2 m))"

definition ref_subtract :: "('a, 'd, 'k) dtype \<Rightarrow> nat \<Rightarrow> nat \<Rightarrow> ('a, 'd, nat) np" where
  "ref_subtract A pm pt =
     np_bind (read2 pm) (\<lambda>m. np_bind (read1 pt) (\<lambda>t. new_matrix (np_subtract A m t)))"

definition ref_square :: "('a, 'd, 'k) dtype \<Rightarrow> nat \<Rightarrow> ('a, 'd, nat) np" where
  "ref_square A p = np_bind (read2 p) (\<lambda>m. new_array (Arr2 (np_square A m)))"

definition ref_sum_axis1 :: "('a, 'd, 'k) dtype \<Rightarrow> nat \<Rightarrow> ('a, 'd, nat) np" where
  "ref_sum_axis1 A p = np_bind (read2 p) (\<lambda>m. new_array (Arr1 (np_sum_axis1 A m)))"

definition ref_sqrt :: "('a, 'd, 'k) dtype \<Rightarrow> nat \<Rightarrow> ('a, 'd, nat) np" where
  "ref_sqrt A p = np_bind (read1 p) (\<lambda>v. new_array (ArrD (np_sqrt A v)))"

definition ref_argsort :: "('d list \<Rightarrow> nat list) \<Rightarrow> nat \<Rightarrow> ('a, 'd, nat) np" where
  "ref_argsort argsort p = np_bind (readD p) (\<lambda>v. new_array (ArrI (argsort v)))"

definition ref_slice_to :: "nat \<Rightarrow> int \<Rightarrow> ('a, 'd, nat) np" where
  "ref_slice_to p k = np_bind (readI p) (\<lambda>i. new_array (ArrI (slice_to i k)))"

definition ref_take :: "nat \<Rightarrow> nat \<Rightarrow> ('a, 'd, nat) np" where
  "ref_take pm pidx =
     np_bind (read2 pm) (\<lambda>m. np_bind (readI pidx) (\<lambda>i. new_matrix (np_take m i)))"

definition k_closest_vectors_heap ::
  "('a, 'd, 'k) dtype \<Rightarrow> ('d list \<Rightarrow> nat list) \<Rightarrow> nat \<Rightarrow> nat \<Rightarrow> int \<Rightarrow> ('a, 'd, nat) np" where
  "k_closest_vectors_heap A argsort target_vec vectors k =
     np_bind (ref_subtract A vectors target_vec) (\<lambda>diff.
     np_bind (ref_square A diff) (\<lambda>squares.
     np_bind (ref_sum_axis1 A squares) (\<lambda>row_sums.
     np_bind (ref_sqrt A row_sums) (\<lambda>distances.
     np_bind (ref_argsort argsort distances) (\<lambda>order.
     np_bind (ref_slice_to order k) (\<lambda>k_closest_indices.
     ref_take vectors k_closest_indices))))))"

text \<open>
  The outcome of a call as the caller sees it: the error, or the array now stored at
  the returned address. A computation is framed when the store it leaves extends the
  store it was given.
\<close>

definition result_of ::
  "(np_error + nat) \<times> ('a, 'd) heap \<Rightarrow> np_error + ('a, 'd) array option" where
  "result_of out = (case fst out of Inl e \<Rightarrow> Inl e | Inr p \<Rightarrow> Inr (lookup (snd out) p))"

definition frame :: "('a, 'd, 'r) np \<Rightarrow> bool" where
  "frame f \<longleftrightarrow> (\<forall>h. prefix h (snd (f h)))"

section \<open>The movies collection\<close>

text \<open>
  The notebook builds the collection with
  \<^verbatim>\<open>
  qdrant.recreate_collection(collection_name="movies",
      vectors_config=models.VectorParams(
          size=encoder.get_sentence_embedding_dimension(), distance=models.Distance.COSINE))
  records = [models.Record(id=idx, vector=vector, payload={...})
             for vector, (idx, row) in zip(movies_embeddings, movies.iterrows())]
  qdrant.upload_points(collection_name="movies", points=records)
  hits = qdrant.search(collection_name="movies", query_vector=..., limit=10)
  \<close>
\<close>

record movie =
  title :: string
  overview :: string
  release_date :: string
  runtime :: int
  genre :: string

text \<open>
  Modelled from the spec: the sentence encoder is an external library, "text in,
  fixed-length vector out". Its model is an arbitrary function from text to vectors;
  \<open>fixed_length\<close> is the property the specification gives it.
\<close>

record encoder =
  embedding_dimension :: nat
  model :: "string \<Rightarrow> real list"

definition get_sentence_embedding_dimension :: "encoder \<Rightarrow> nat" where
  "get_sentence_embedding_dimension enc = embedding_dimension enc"

definition encode :: "encoder \<Rightarrow> string \<Rightarrow> real list" where
  "encode enc s = model enc s"

definition fixed_length :: "encoder \<Rightarrow> bool" where
  "fixed_length enc \<longleftrightarrow>
     (\<forall>s. length (encode enc s) = get_sentence_embedding_dimension enc)"

text \<open>
  Modelled from the spec: the vector database client is an external library offering
  "create collection, upload points with payload, similarity search with a limit".
  The notebook adds that the vector size of a collection is fixed at creation and
  that "only vectors of the same size can be added to the same collection": an upload
  stops with an error at the first point of another size. A point uploaded under an
  identifier already present replaces the old one. The similarity score of the index
  is a parameter of \<open>search\<close>.
\<close>

datatype distance_metric = COSINE | DOT | EUCLID | MANHATTAN

record vector_params =
  vec_size :: nat
  metric :: distance_metric

record point =
  point_id :: nat
  vector :: "real list"
  payload :: movie

record collection =
  config :: vector_params
  points :: "point list"

type_synonym qdrant = "string \<Rightarrow> collection option"

datatype qdrant_error = CollectionNotFound | WrongVectorSize

definition recreate_collection :: "qdrant \<Rightarrow> string \<Rightarrow> vector_params \<Rightarrow> qdrant" where
  "recreate_collection db name params = db(name \<mapsto> \<lparr>config = params, points = []\<rparr>)"

definition upsert_point :: "collection \<Rightarrow> point \<Rightarrow> qdrant_error + collection" where
  "upsert_point c p =
     (if length (vector p) = vec_size (config c)
      then Inr (c\<lparr>points := filter (\<lambda>q. point_id q \<noteq> point_id p) (points c) @ [p]\<rparr>)
      else Inl WrongVectorSize)"

fun upsert_all :: "collection \<Rightarrow> point list \<Rightarrow> qdrant_error option \<times> collection" where
  "upsert_all c [] = (None, c)"
| "upsert_all c (p # ps) =
     (case upsert_point c p of
        Inl e \<Rightarrow> (Some e, c)
      | Inr c' \<Rightarrow> upsert_all c' ps)"

definition upload_points :: "qdrant \<Rightarrow> string \<Rightarrow> point list \<Rightarrow> qdrant_error option \<times> qdrant" where
  "upload_points db name pts =
     (case db name of
        None \<Rightarrow> (Some CollectionNotFound, db)
      | Some c \<Rightarrow> (case upsert_all c pts of (err, c') \<Rightarrow> (err, db(name \<mapsto> c'))))"

definition search ::
  "(real list \<Rightarrow> real list \<Rightarrow> real) \<Rightarrow> qdrant \<Rightarrow> string \<Rightarrow> real list \<Rightarrow> nat
     \<Rightarrow> (qdrant_error + point list) \<times> qdrant" where
  "search similarity db name query_vector limit =
     (case db name of
        None \<Rightarrow> (Inl CollectionNotFound, db)
      | Some c \<Rightarrow>
          if length query_vector \<noteq> vec_size (config c) then (Inl WrongVectorSize, db)
          else (Inr (take limit
                  (rev (sort_key (\<lambda>p. similarity query_vector (vector p)) (points c)))), db))"

text \<open>
  Modelled from the spec: \<^verbatim>\<open>movie_buddy.data.get_embeddings\<close> is not among the sources.
  It returns the embeddings that the first notebook computes with
  \<^verbatim>\<open>encoder.encode(movies["overview"].to_list())\<close>.
\<close>

definition get_embeddings :: "encoder \<Rightarrow> movie list \<Rightarrow> real list list" where
  "get_embeddings enc movies = map (\<lambda>m. encode enc (overview m)) movies"

text \<open>
  The records and the two calls that build the collection, as the notebook has them;
  \<^verbatim>\<open>movies.iterrows()\<close> numbers the rows from zero.
\<close>

definition movie_records :: "real list list \<Rightarrow> movie list \<Rightarrow> point list" where
  "movie_records movies_embeddings movies =
     map (\<lambda>(v, (idx, row)). \<lparr>point_id = idx, vector = v, payload = row\<rparr>)
       (zip movies_embeddings (zip [0..<length movies] movies))"

definition build_movies_collection ::
  "encoder \<Rightarrow> movie list \<Rightarrow> qdrant \<Rightarrow> qdrant_error option \<times> qdrant" where
  "build_movies_collection enc movies db =
     upload_points
       (recreate_collection db ''movies''
          \<lparr>vec_size = get_sentence_embedding_dimension enc, metric = COSINE\<rparr>)
       ''movies''
       (movie_records (get_embeddings enc movies) movies)"

text \<open>
The invariant: in every collection, every stored vector has the collection's size.
\<close>

definition same_dimension :: "collection \<Rightarrow> bool" where
  "same_dimension c \<longleftrightarrow> list_all (\<lambda>p. length (vector p) = vec_size (config c)) (points c)"

definition dimension_invariant :: "qdrant \<Rightarrow> bool" where
  "dimension_invariant db \<longleftrightarrow> (\<forall>name c. db name = Some c \<longrightarrow> same_dimension c)"

section \<open>The retrieval-augmented answer\<close>

text \<open>
  The notebook \<^verbatim>\<open>03-rag_from_scratch.ipynb\<close> is an exercise sheet. Its functions are
  left for the reader to write:
  \<^verbatim>\<open>
  def get_records(query, *, encoder=encoder, client=qdrant,
                  collection=COLLECTION_NAME, max_results=10): ...

  def format_records_into_context(records, *, template): ...

  def ask(question, *, max_results=10, system=SYSTEM, prompt_template=prompt_template,
          context_template=context_template, qdrant=qdrant, collection=COLLECTION_NAME): ...

  answer = ask(question=question)
  \<close>
  A body that is the expression \<^verbatim>\<open>...\<close> evaluates it and falls off the end: the
  function returns \<^verbatim>\<open>None\<close>. The calls to external services made so far are
  threaded through as a list, so that a function which called the encoder, the
  database or the language model would lengthen it. In the sheet \<open>question\<close>,
  \<open>SYSTEM\<close>, the templates, \<open>qdrant\<close> and \<open>COLLECTION_NAME\<close> are all bound to
  \<^verbatim>\<open>...\<close> as well.
\<close>

datatype py = Ellipsis | PyNone | PyInt int | PyStr string

datatype external_call = EncoderCall | SearchCall | CompletionCall

definition get_records ::
  "py \<Rightarrow> py \<Rightarrow> py \<Rightarrow> py \<Rightarrow> py \<Rightarrow> external_call list \<Rightarrow> py \<times> external_call list" where
  "get_records query encoder client collection max_results calls = (PyNone, calls)"

definition format_records_into_context ::
  "py \<Rightarrow> py \<Rightarrow> external_call list \<Rightarrow> py \<times> external_call list" where
  "format_records_into_context records template calls = (PyNone, calls)"

definition ask ::
  "py \<Rightarrow> py \<Rightarrow> py \<Rightarrow> py \<Rightarrow> py \<Rightarrow> py \<Rightarrow> py \<Rightarrow> external_call list \<Rightarrow> py \<times> external_call list" where
  "ask question max_results system prompt_template context_template qdrant collection calls =
     (PyNone, calls)"

section \<open>Example data\<close>

text \<open>
  Three rows at the distances 5, 1 and 2 from the origin, as real numbers and as
  float64; two rows equally far from the origin; and two rows with the entries
  \<open>2\<^sup>2\<^sup>7\<close> and 1, and \<open>2\<^sup>2\<^sup>7\<close> and 0, in either order, whose distances from the
  origin differ by less than float64 can tell.
\<close>

definition example_vectors :: "real ndarray2" where
  "example_vectors = \<lparr>ncols = 2, rows = [[3, 4], [1, 0], [0, 2]]\<rparr>"

definition example_f64 :: "f64 ndarray2" where
  "example_f64 = \<lparr>ncols = 2, rows = [[Fin 3, Fin 4], [Fin 1, Fin 0], [Fin 0, Fin 2]]\<rparr>"

definition tied_f64 :: "f64 ndarray2" where
  "tied_f64 = \<lparr>ncols = 2, rows = [[Fin 1, Fin 0], [Fin 0, Fin 1]]\<rparr>"

definition close_f64 :: "f64 ndarray2" where
  "close_f64 = \<lparr>ncols = 2, rows = [[Fin (2 ^ 27), Fin 1], [Fin (2 ^ 27), Fin 0]]\<rparr>"

definition close_swapped_f64 :: "f64 ndarray2" where
  "close_swapped_f64 = \<lparr>ncols = 2, rows = [[Fin (2 ^ 27), Fin 0], [Fin (2 ^ 27), Fin 1]]\<rparr>"

text \<open>
  Two rows of integers: the square of the entry \<open>2\<^sup>3\<^sup>2\<close> is \<open>2\<^sup>6\<^sup>4\<close>, which wraps
  around to 0 in int64.
\<close>

definition wrapped_i64 :: "64 word ndarray2" where
  "wrapped_i64 = \<lparr>ncols = 2, rows = [[2 ^ 32, 0], [1, 0]]\<rparr>"

text \<open>
  A second function that meets the contract of argsort: among equal entries the
  index that comes last goes first.
\<close>

definition argsort_last_first :: "('a, 'd, 'k :: linorder) dtype \<Rightarrow> 'd list \<Rightarrow> nat list" where
  "argsort_last_first A ds = sort_key (\<lambda>i. sort_rank A (ds ! i)) (rev [0..<length ds])"

text \<open>
  Stores that hold the example arguments, and stores that hold the two rows of
  equal distance, each pair with the arguments at different addresses and among
  different arrays.
\<close>

definition example_heap :: "(real, real) heap" where
  "example_heap = [Arr1 [0, 0], Arr2 example_vectors]"





definition example_encoder :: encoder where
  "example_encoder = \<lparr>embedding_dimension = 2, model = (\<lambda>s. [real (length s), 1])\<rparr>"

definition example_movies :: "movie list" where
  "example_movies =
     [\<lparr>title = ''Alien'', overview = ''A crew meets a creature'', release_date = ''1979'',
        runtime = 117, genre = ''Horror''\<rparr>,
      \<lparr>title = ''Up'', overview = ''A house flies'', release_date = ''2009'',
        runtime = 96, genre = ''Animation''\<rparr>]"

section \<open>Facts about the array operations\<close>

lemma argsort_stable_spec: "argsort_spec A (argsort_stable A)"
  by (simp add: argsort_spec_def argsort_stable_def)

lemma argsort_last_first_spec: "argsort_spec A (argsort_last_first A)"
  by (simp add: argsort_spec_def argsort_last_first_def)

lemma argsort_length:
  assumes "argsort_spec A argsort"
  shows "length (argsort ds) = length ds"
proof -
  have "size (mset (argsort ds)) = size (mset [0..<length ds])"
    using assms by (simp add: argsort_spec_def)
  then show ?thesis by simp
qed

lemma argsort_set:
  assumes "argsort_spec A argsort"
  shows "set (argsort ds) = {0..<length ds}"
proof -
  have "set_mset (mset (argsort ds)) = set_mset (mset [0..<length ds])"
    using assms by (simp add: argsort_spec_def)
  then show ?thesis by simp
qed

lemma argsort_distinct:
  assumes "argsort_spec A argsort"
  shows "distinct (argsort ds)"
proof -
  have "mset (argsort ds) = mset [0..<length ds]"
    using assms by (simp add: argsort_spec_def)
  then have "distinct (argsort ds) \<longleftrightarrow> distinct [0..<length ds]"
    by (rule mset_eq_imp_distinct_iff)
  then show ?thesis by simp
qed

lemma argsort_sorted:
  assumes "argsort_spec A argsort"
  shows "sorted (map (\<lambda>i. sort_rank A (ds ! i)) (argsort ds))"
  using assms by (simp add: argsort_spec_def)

lemma argsort_nth_mono:
  assumes "argsort_spec A argsort" and "a \<le> b" and "b < length ds"
  shows "sort_rank A (ds ! (argsort ds ! a)) \<le> sort_rank A (ds ! (argsort ds ! b))"
proof -
  let ?ranks = "map (\<lambda>i. sort_rank A (ds ! i)) (argsort ds)"
  have len: "length (argsort ds) = length ds"
    using assms(1) by (rule argsort_length)
  have "sorted ?ranks"
    using assms(1) by (rule argsort_sorted)
  then have "?ranks ! a \<le> ?ranks ! b"
    using assms(2,3) len by (intro sorted_nth_mono) simp_all
  then show ?thesis using assms(2,3) len by simp
qed

lemma argsort_prefix_minimal:
  assumes "argsort_spec A argsort"
    and "i \<in> set (take n (argsort ds))"
    and "j < length ds"
    and "j \<notin> set (take n (argsort ds))"
  shows "sort_rank A (ds ! i) \<le> sort_rank A (ds ! j)"
proof -
  have len: "length (argsort ds) = length ds"
    using assms(1) by (rule argsort_length)
  from assms(2) obtain a where a: "a < n" "a < length ds" "argsort ds ! a = i"
    using len by (auto simp: in_set_conv_nth)
  have "j \<in> set (argsort ds)"
    using assms(3) by (simp add: argsort_set [OF assms(1)])
  then obtain b where b: "b < length ds" "argsort ds ! b = j"
    using len by (auto simp: in_set_conv_nth)
  have "n \<le> b"
  proof (rule ccontr)
    assume "\<not> n \<le> b"
    then have "take n (argsort ds) ! b = j" and "b < length (take n (argsort ds))"
      using b len by simp_all
    then have "j \<in> set (take n (argsort ds))"
      by (metis nth_mem)
    with assms(4) show False by contradiction
  qed
  with a have "a \<le> b" by simp
  then have "sort_rank A (ds ! (argsort ds ! a)) \<le> sort_rank A (ds ! (argsort ds ! b))"
    using b(1) by (rule argsort_nth_mono [OF assms(1)])
  then show ?thesis using a b by simp
qed

lemma argsort_sorts:
  assumes "argsort_spec A argsort"
  shows "map (\<lambda>i. sort_rank A (ds ! i)) (argsort ds) = sort (map (sort_rank A) ds)"
proof -
  let ?ranks = "map (sort_rank A) ds"
  have e: "map (\<lambda>i. sort_rank A (ds ! i)) [0..<length ds] = ?ranks"
    by (intro nth_equalityI) simp_all
  have "mset (map (\<lambda>i. sort_rank A (ds ! i)) (argsort ds)) =
        mset (map (\<lambda>i. sort_rank A (ds ! i)) [0..<length ds])"
    using assms by (simp add: argsort_spec_def)
  also have "\<dots> = mset ?ranks"
    by (simp only: e)
  finally have "mset (map (\<lambda>i. sort_rank A (ds ! i)) (argsort ds)) = mset ?ranks" .
  then have "sort ?ranks = map (\<lambda>i. sort_rank A (ds ! i)) (argsort ds)"
    using argsort_sorted [OF assms] by (rule properties_for_sort)
  then show ?thesis by simp
qed

lemma argsort_unique:
  assumes "argsort_spec A argsort1" and "argsort_spec A argsort2"
    and "distinct (map (sort_rank A) ds)"
  shows "argsort1 ds = argsort2 ds"
proof -
  let ?f = "\<lambda>i. sort_rank A (ds ! i)"
  have "inj_on ?f {0..<length ds}"
  proof (rule inj_onI)
    fix i j assume "i \<in> {0..<length ds}" "j \<in> {0..<length ds}" "?f i = ?f j"
    then have "map (sort_rank A) ds ! i = map (sort_rank A) ds ! j"
      and "i < length (map (sort_rank A) ds)" and "j < length (map (sort_rank A) ds)"
      by simp_all
    with assms(3) show "i = j"
      by (simp only: nth_eq_iff_index_eq)
  qed
  then have "inj_on ?f (set (argsort1 ds) \<union> set (argsort2 ds))"
    by (simp add: argsort_set [OF assms(1)] argsort_set [OF assms(2)])
  moreover have "map ?f (argsort1 ds) = map ?f (argsort2 ds)"
    by (simp only: argsort_sorts [OF assms(1)] argsort_sorts [OF assms(2)])
  ultimately show ?thesis by (rule map_inj_on [rotated])
qed

lemma np_subtract_matching:
  assumes "length t = ncols m"
  shows "np_subtract A m t =
    Inr \<lparr>ncols = ncols m,
         rows = map (\<lambda>r. map2 (elt_sub A) (broadcast_to (ncols m) r) t) (rows m)\<rparr>"
  using assms by (simp add: np_subtract_def broadcast_shape_def broadcast_to_def)

lemma np_subtract_rows:
  "np_subtract A m t = Inr d \<Longrightarrow> length (rows d) = length (rows m)"
  by (auto simp: np_subtract_def split: sum.splits)

lemma np_subtract_error_iff:
  "np_subtract A m t = Inl e \<longleftrightarrow>
     e = ValueError \<and> length t \<noteq> ncols m \<and> length t \<noteq> 1 \<and> ncols m \<noteq> 1"
  by (auto simp: np_subtract_def broadcast_shape_def split: sum.splits if_splits)

lemma pipeline_distances:
  assumes "wf_ndarray2 m" and "length t = ncols m"
  shows "np_sqrt A (np_sum_axis1 A (np_square A
           \<lparr>ncols = ncols m,
            rows = map (\<lambda>r. map2 (elt_sub A) (broadcast_to (ncols m) r) t) (rows m)\<rparr>))
         = distances_of A t m"
proof -
  have "broadcast_to (ncols m) r = r" if "r \<in> set (rows m)" for r
    using that assms(1) by (simp add: wf_ndarray2_def list_all_iff broadcast_to_def)
  then show ?thesis
    by (simp add: np_sqrt_def np_sum_axis1_def np_square_def distances_of_def
        computed_distance_def comp_def)
qed

lemma slice_to_subset: "set (slice_to xs k) \<subseteq> set xs"
  unfolding slice_to_def by (simp add: set_take_subset)

lemma slice_to_nonneg: "0 \<le> k \<Longrightarrow> slice_to xs k = take (nat k) xs"
  by (simp add: slice_to_def)

lemma slice_to_take:
  "slice_to xs k = take (if k < 0 then nat (int (length xs) + k) else nat k) xs"
  by (simp add: slice_to_def)

lemma np_take_argsort:
  assumes "argsort_spec A argsort" and "length ds = nrows m"
  shows "np_take m (slice_to (argsort ds) k) =
         Inr \<lparr>ncols = ncols m, rows = map (\<lambda>i. rows m ! i) (slice_to (argsort ds) k)\<rparr>"
proof -
  have "i < nrows m" if "i \<in> set (slice_to (argsort ds) k)" for i
  proof -
    from that have "i \<in> set (argsort ds)"
      using slice_to_subset [of "argsort ds" k] by (rule subsetD [rotated])
    then have "i \<in> {0..<length ds}" by (simp only: argsort_set [OF assms(1)])
    then show ?thesis using assms(2) by simp
  qed
  then have "list_all (\<lambda>i. i < nrows m) (slice_to (argsort ds) k)"
    by (simp only: list_all_iff) blast
  then show ?thesis by (simp only: np_take_def if_True)
qed

lemma exact_distance:
  assumes "length r = length t"
  shows "distance_rank exact t r = euclidean r t"
proof -
  have "map (\<lambda>p. (fst p - snd p)\<^sup>2) (zip r t) = map (\<lambda>i. (r ! i - t ! i)\<^sup>2) [0..<length r]"
    using assms by (intro nth_equalityI) simp_all
  then have "(\<Sum>p\<leftarrow>zip r t. (fst p - snd p)\<^sup>2) = (\<Sum>i\<leftarrow>[0..<length r]. (r ! i - t ! i)\<^sup>2)"
    by simp
  then show ?thesis
    by (simp add: distance_rank_def computed_distance_def exact_def euclidean_def comp_def
        case_prod_beta)
qed

section \<open>Facts about the search\<close>

lemma k_closest_vectors_matching:
  assumes "wf_ndarray2 m" and "length t = ncols m"
  shows "k_closest_vectors A argsort t m k =
         np_take m (slice_to (argsort (distances_of A t m)) k)"
proof -
  have "np_subtract A m t =
    Inr \<lparr>ncols = ncols m,
         rows = map (\<lambda>r. map2 (elt_sub A) (broadcast_to (ncols m) r) t) (rows m)\<rparr>"
    using assms(2) by (rule np_subtract_matching)
  then show ?thesis
    unfolding k_closest_vectors_def Let_def
    by (simp only: sum.case pipeline_distances [OF assms])
qed

lemma length_distances_of: "length (distances_of A t m) = nrows m"
  by (simp add: distances_of_def nrows_def)

lemma distances_of_nth:
  "i < nrows m \<Longrightarrow>
     sort_rank A (distances_of A t m ! i) = distance_rank A t (rows m ! i)"
  by (simp add: distances_of_def nrows_def distance_rank_def)

lemma k_closest_vectors_rows:
  assumes "argsort_spec A argsort" and "wf_ndarray2 m" and "length t = ncols m"
  shows "k_closest_vectors A argsort t m k =
         Inr \<lparr>ncols = ncols m,
              rows = map (\<lambda>i. rows m ! i) (slice_to (argsort (distances_of A t m)) k)\<rparr>"
  by (simp only: k_closest_vectors_matching [OF assms(2,3)]
      np_take_argsort [OF assms(1) length_distances_of])

lemma k_closest_vectors_after_subtract:
  assumes "argsort_spec A argsort" and "np_subtract A m t = Inr d"
  shows "k_closest_vectors A argsort t m k =
     Inr \<lparr>ncols = ncols m,
          rows = map (\<lambda>i. rows m ! i)
            (slice_to (argsort (np_sqrt A (np_sum_axis1 A (np_square A d)))) k)\<rparr>"
proof -
  have "length (np_sqrt A (np_sum_axis1 A (np_square A d))) = nrows m"
    using np_subtract_rows [OF assms(2)]
    by (simp add: np_sqrt_def np_sum_axis1_def np_square_def nrows_def)
  then have "np_take m (slice_to (argsort (np_sqrt A (np_sum_axis1 A (np_square A d)))) k) =
     Inr \<lparr>ncols = ncols m,
          rows = map (\<lambda>i. rows m ! i)
            (slice_to (argsort (np_sqrt A (np_sum_axis1 A (np_square A d)))) k)\<rparr>"
    by (rule np_take_argsort [OF assms(1)])
  then show ?thesis
    unfolding k_closest_vectors_def Let_def by (simp only: assms(2) sum.case)
qed

lemma k_closest_vectors_subtract_fails:
  "np_subtract A m t = Inl e \<Longrightarrow> k_closest_vectors A argsort t m k = Inl e"
  unfolding k_closest_vectors_def by (simp only: sum.case)

lemma returned_ranks:
  assumes "argsort_spec A argsort"
  shows "map (distance_rank A t) (map (\<lambda>i. rows m ! i) (take n (argsort (distances_of A t m))))
         = take n (map (\<lambda>i. sort_rank A (distances_of A t m ! i)) (argsort (distances_of A t m)))"
proof -
  have "distance_rank A t (rows m ! i) = sort_rank A (distances_of A t m ! i)"
    if "i \<in> set (take n (argsort (distances_of A t m)))" for i
  proof -
    from that have "i \<in> set (argsort (distances_of A t m))" by (rule in_set_takeD)
    then have "i < nrows m"
      by (simp add: argsort_set [OF assms] length_distances_of)
    then show ?thesis by (simp add: distances_of_nth)
  qed
  then show ?thesis by (simp add: take_map)
qed

lemma returned_sorted:
  assumes "argsort_spec A argsort"
  shows "sorted (map (distance_rank A t)
           (map (\<lambda>i. rows m ! i) (take n (argsort (distances_of A t m)))))"
proof -
  have "sorted (map (\<lambda>i. sort_rank A (distances_of A t m ! i)) (argsort (distances_of A t m)))"
    using assms by (rule argsort_sorted)
  then have "sorted (take n
      (map (\<lambda>i. sort_rank A (distances_of A t m ! i)) (argsort (distances_of A t m))))"
    by (rule sorted_wrt_take)
  then show ?thesis by (simp only: returned_ranks [OF assms])
qed

lemma ranks_of_distances:
  "map (sort_rank A) (distances_of A t m) = map (distance_rank A t) (rows m)"
  by (simp add: distances_of_def distance_rank_def)

lemma rows_permuted:
  assumes "argsort_spec A argsort" and "length ds = nrows m"
  shows "mset (map (\<lambda>i. rows m ! i) (argsort ds)) = mset (rows m)"
proof -
  have "mset (map (\<lambda>i. rows m ! i) (argsort ds)) = image_mset (\<lambda>i. rows m ! i) (mset (argsort ds))"
    by simp
  also have "\<dots> = image_mset (\<lambda>i. rows m ! i) (mset [0..<length (rows m)])"
    using assms by (simp add: argsort_spec_def nrows_def)
  also have "\<dots> = mset (map (\<lambda>i. rows m ! i) [0..<length (rows m)])"
    by simp
  also have "\<dots> = mset (rows m)"
    by (simp only: map_nth)
  finally show ?thesis .
qed

lemma mset_take_subseteq: "mset (take n xs) \<subseteq># mset xs"
proof -
  have "mset xs = mset (take n xs) + mset (drop n xs)"
    by (metis append_take_drop_id mset_append)
  then show ?thesis by simp
qed

lemma returned_rows_subseteq:
  assumes "argsort_spec A argsort" and "length ds = nrows m"
  shows "mset (map (\<lambda>i. rows m ! i) (take n (argsort ds))) \<subseteq># mset (rows m)"
proof -
  have "mset (map (\<lambda>i. rows m ! i) (take n (argsort ds))) =
        mset (take n (map (\<lambda>i. rows m ! i) (argsort ds)))"
    by (simp only: take_map)
  also have "\<dots> \<subseteq># mset (map (\<lambda>i. rows m ! i) (argsort ds))"
    by (rule mset_take_subseteq)
  also have "\<dots> = mset (rows m)"
    using assms by (rule rows_permuted)
  finally show ?thesis .
qed


section \<open>Facts about the linear scan\<close>

lemma map_fst_insort_key:
  "map fst (insort_key fst p ps) = insort (fst p) (map fst ps)"
  by (induction ps) simp_all

lemma take_insort_take:
  "take k (insort x (take k xs)) = take k (insort (x :: 'a :: linorder) xs)"
proof (induction xs arbitrary: k)
  case Nil
  then show ?case by simp
next
  case (Cons y ys)
  show ?case
  proof (cases k)
    case 0
    then show ?thesis by simp
  next
    case (Suc j)
    show ?thesis
    proof (cases "x \<le> y")
      case True
      have "take j (y # take j ys) = take j (y # ys)"
        by (cases j) simp_all
      with True Suc show ?thesis by simp
    next
      case False
      with Suc Cons.IH [of j] show ?thesis by simp
    qed
  qed
qed

lemma sort_snoc: "sort (xs @ [x]) = insort x (sort (xs :: 'a :: linorder list))"
  by (rule properties_for_sort) (simp_all add: sorted_insort)

lemma scan_snoc:
  "foldl (scan_step A t k) [] (vs @ [v]) =
   take k (insort_key fst (distance_rank A t v, v) (foldl (scan_step A t k) [] vs))"
proof -
  have "foldl (scan_step A t k) [] (vs @ [v]) =
        scan_step A t k (foldl (scan_step A t k) [] vs) v"
    by simp
  also have "\<dots> =
      take k (insort_key fst (distance_rank A t v, v) (foldl (scan_step A t k) [] vs))"
    by (rule scan_step_def)
  finally show ?thesis .
qed

lemma scan_keys:
  "map fst (foldl (scan_step A t k) [] vs) = take k (sort (map (distance_rank A t) vs))"
proof (induction vs rule: rev_induct)
  case Nil
  then show ?case by simp
next
  case (snoc v vs)
  let ?ds = "map (distance_rank A t) vs"
  have "map fst (foldl (scan_step A t k) [] (vs @ [v])) =
        take k (insort (distance_rank A t v) (map fst (foldl (scan_step A t k) [] vs)))"
    by (simp only: scan_snoc take_map [symmetric] map_fst_insort_key fst_conv)
  also have "\<dots> = take k (insort (distance_rank A t v) (take k (sort ?ds)))"
    by (simp only: snoc.IH)
  also have "\<dots> = take k (insort (distance_rank A t v) (sort ?ds))"
    by (rule take_insort_take)
  also have "\<dots> = take k (sort (?ds @ [distance_rank A t v]))"
    by (simp only: sort_snoc)
  finally show ?case by simp
qed

lemma scan_consistent:
  "p \<in> set (foldl (scan_step A t k) [] vs) \<Longrightarrow> fst p = distance_rank A t (snd p)"
proof (induction vs arbitrary: p rule: rev_induct)
  case Nil
  then show ?case by simp
next
  case (snoc v vs)
  from snoc.prems
  have "p \<in> set (insort_key fst (distance_rank A t v, v) (foldl (scan_step A t k) [] vs))"
    unfolding scan_snoc by (rule in_set_takeD)
  then have "p = (distance_rank A t v, v) \<or> p \<in> set (foldl (scan_step A t k) [] vs)"
    by (simp add: set_insort_key)
  with snoc.IH show ?case by auto
qed

lemma scan_rows:
  "mset (map snd (foldl (scan_step A t k) [] vs)) \<subseteq># mset vs"
proof (induction vs rule: rev_induct)
  case Nil
  then show ?case by simp
next
  case (snoc v vs)
  let ?best = "foldl (scan_step A t k) [] vs"
  have "mset (map snd (foldl (scan_step A t k) [] (vs @ [v]))) =
        image_mset snd (mset (take k (insort_key fst (distance_rank A t v, v) ?best)))"
    by (simp only: scan_snoc mset_map)
  also have "\<dots> \<subseteq># image_mset snd (mset (insort_key fst (distance_rank A t v, v) ?best))"
    by (intro image_mset_subseteq_mono mset_take_subseteq)
  also have "\<dots> = add_mset v (mset (map snd ?best))"
    by simp
  also have "\<dots> \<subseteq># add_mset v (mset vs)"
    using snoc.IH by simp
  finally show ?case by simp
qed

lemma linear_scan_knn_ranks:
  "map (distance_rank A t) (linear_scan_knn A t vs k) =
   take k (sort (map (distance_rank A t) vs))"
proof -
  have "map (distance_rank A t) (linear_scan_knn A t vs k) =
        map (\<lambda>p. distance_rank A t (snd p)) (foldl (scan_step A t k) [] vs)"
    by (simp add: linear_scan_knn_def comp_def)
  also have "\<dots> = map fst (foldl (scan_step A t k) [] vs)"
    by (rule map_cong) (simp_all add: scan_consistent)
  finally show ?thesis by (simp only: scan_keys)
qed

lemma mset_subseteq_set: "mset xs \<subseteq># mset ys \<Longrightarrow> set xs \<subseteq> set ys"
  using set_mset_mono [of "mset xs" "mset ys"] by simp

lemma same_ranks_same_rows:
  assumes "map f xs = map f ys"
    and "set xs \<subseteq> set zs" and "set ys \<subseteq> set zs"
    and "distinct (map f zs)"
  shows "xs = ys"
proof -
  have "inj_on f (set zs)"
    using assms(4) by (simp add: distinct_map)
  then have "inj_on f (set xs \<union> set ys)"
    using assms(2,3) by (auto intro: inj_on_subset)
  with assms(1) show ?thesis by (rule map_inj_on)
qed

section \<open>Facts about the store\<close>

lemma frame_new_array: "frame (new_array a)"
  by (simp add: frame_def new_array_def)

lemma frame_np_raise: "frame (np_raise e)"
  by (simp add: frame_def np_raise_def)

lemma frame_read1: "frame (read1 p)"
  by (simp add: frame_def read1_def split: option.split array.split)

lemma frame_read2: "frame (read2 p)"
  by (simp add: frame_def read2_def split: option.split array.split)

lemma frame_readD: "frame (readD p)"
  by (simp add: frame_def readD_def split: option.split array.split)

lemma frame_readI: "frame (readI p)"
  by (simp add: frame_def readI_def split: option.split array.split)

lemma frame_new_matrix: "frame (new_matrix r)"
  by (cases r) (simp_all add: new_matrix_def frame_new_array frame_np_raise)

lemma frame_np_bind:
  assumes "frame f" and "\<And>x. frame (g x)"
  shows "frame (np_bind f g)"
proof -
  have "prefix h (snd (np_bind f g h))" for h
  proof (cases "f h")
    case (Pair r h')
    have 1: "prefix h h'" using assms(1) Pair by (auto simp: frame_def dest: spec [of _ h])
    show ?thesis
    proof (cases r)
      case (Inl e)
      with Pair 1 show ?thesis by (simp add: np_bind_def)
    next
      case (Inr x)
      have "prefix h' (snd (g x h'))" using assms(2) by (simp add: frame_def)
      with 1 have "prefix h (snd (g x h'))" by (rule prefix_order.trans)
      with Pair Inr show ?thesis by (simp add: np_bind_def)
    qed
  qed
  then show ?thesis by (simp add: frame_def)
qed

lemmas frame_intros =
  frame_np_bind frame_new_array frame_np_raise frame_read1 frame_read2 frame_readD frame_readI
  frame_new_matrix

lemma frame_k_closest_vectors_heap: "frame (k_closest_vectors_heap A argsort t v k)"
  unfolding k_closest_vectors_heap_def ref_subtract_def ref_square_def ref_sum_axis1_def
    ref_sqrt_def ref_argsort_def ref_slice_to_def ref_take_def
  by (intro frame_intros)

lemma lookup_append_old: "lookup h p = Some a \<Longrightarrow> lookup (h @ xs) p = Some a"
  by (auto simp: lookup_def nth_append split: if_splits)

lemma lookup_new: "lookup (h @ [a]) (length h) = Some a"
  by (simp add: lookup_def)

lemma lookup_prefix:
  assumes "prefix h h'" and "p < length h"
  shows "lookup h' p = lookup h p"
proof -
  from assms(1) obtain zs where "h' = h @ zs" by (rule prefixE)
  with assms(2) show ?thesis by (simp add: lookup_def nth_append)
qed

lemma read1_Some: "lookup h p = Some (Arr1 v) \<Longrightarrow> read1 p h = (Inr v, h)"
  by (simp add: read1_def)

lemma read2_Some: "lookup h p = Some (Arr2 m) \<Longrightarrow> read2 p h = (Inr m, h)"
  by (simp add: read2_def)

lemma readD_Some: "lookup h p = Some (ArrD v) \<Longrightarrow> readD p h = (Inr v, h)"
  by (simp add: readD_def)

lemma readI_Some: "lookup h p = Some (ArrI i) \<Longrightarrow> readI p h = (Inr i, h)"
  by (simp add: readI_def)

lemma ref_subtract_run:
  assumes "lookup h pm = Some (Arr2 m)" and "lookup h pt = Some (Arr1 t)"
  shows "ref_subtract A pm pt h = new_matrix (np_subtract A m t) h"
  unfolding ref_subtract_def
  by (simp only: np_bind_def prod.case sum.case read2_Some [OF assms(1)] read1_Some [OF assms(2)])

lemma ref_square_run:
  assumes "lookup h p = Some (Arr2 m)"
  shows "ref_square A p h = (Inr (length h), h @ [Arr2 (np_square A m)])"
  unfolding ref_square_def
  by (simp only: np_bind_def prod.case sum.case read2_Some [OF assms] new_array_def)

lemma ref_sum_axis1_run:
  assumes "lookup h p = Some (Arr2 m)"
  shows "ref_sum_axis1 A p h = (Inr (length h), h @ [Arr1 (np_sum_axis1 A m)])"
  unfolding ref_sum_axis1_def
  by (simp only: np_bind_def prod.case sum.case read2_Some [OF assms] new_array_def)

lemma ref_sqrt_run:
  assumes "lookup h p = Some (Arr1 v)"
  shows "ref_sqrt A p h = (Inr (length h), h @ [ArrD (np_sqrt A v)])"
  unfolding ref_sqrt_def
  by (simp only: np_bind_def prod.case sum.case read1_Some [OF assms] new_array_def)

lemma ref_argsort_run:
  assumes "lookup h p = Some (ArrD v)"
  shows "ref_argsort argsort p h = (Inr (length h), h @ [ArrI (argsort v)])"
  unfolding ref_argsort_def
  by (simp only: np_bind_def prod.case sum.case readD_Some [OF assms] new_array_def)

lemma ref_slice_to_run:
  assumes "lookup h p = Some (ArrI i)"
  shows "ref_slice_to p k h = (Inr (length h), h @ [ArrI (slice_to i k)])"
  unfolding ref_slice_to_def
  by (simp only: np_bind_def prod.case sum.case readI_Some [OF assms] new_array_def)

lemma ref_take_run:
  assumes "lookup h pm = Some (Arr2 m)" and "lookup h pidx = Some (ArrI i)"
  shows "ref_take pm pidx h = new_matrix (np_take m i) h"
  unfolding ref_take_def
  by (simp only: np_bind_def prod.case sum.case read2_Some [OF assms(1)] readI_Some [OF assms(2)])

lemma result_of_new_matrix:
  "result_of (new_matrix r h) = map_sum id (\<lambda>m. Some (Arr2 m)) r"
  by (cases r) (simp_all add: result_of_def new_matrix_def np_raise_def new_array_def lookup_new)

lemma new_matrix_fresh: "new_matrix r h = (Inr q, h') \<Longrightarrow> q = length h"
  by (cases r) (auto simp: new_matrix_def np_raise_def new_array_def)

lemma k_closest_vectors_heap_steps:
  assumes t: "lookup h pt = Some (Arr1 t)" and m: "lookup h pv = Some (Arr2 m)"
  shows "\<exists>tmp. k_closest_vectors_heap A argsort pt pv k h =
           new_matrix (k_closest_vectors A argsort t m k) (h @ tmp)"
proof (cases "np_subtract A m t")
  case (Inl e)
  have "ref_subtract A pv pt h = (Inl e, h)"
    by (simp add: ref_subtract_run [OF m t] Inl new_matrix_def np_raise_def)
  then have "k_closest_vectors_heap A argsort pt pv k h = (Inl e, h)"
    unfolding k_closest_vectors_heap_def by (simp only: np_bind_def prod.case sum.case)
  moreover have "k_closest_vectors A argsort t m k = Inl e"
    using Inl by (rule k_closest_vectors_subtract_fails)
  ultimately have "k_closest_vectors_heap A argsort pt pv k h =
      new_matrix (k_closest_vectors A argsort t m k) (h @ [])"
    by (simp add: new_matrix_def np_raise_def)
  then show ?thesis by (rule exI)
next
  case (Inr d)
  define distances where "distances = np_sqrt A (np_sum_axis1 A (np_square A d))"
  define idx where "idx = slice_to (argsort distances) k"
  define h1 where "h1 = h @ [Arr2 d]"
  define h2 where "h2 = h1 @ [Arr2 (np_square A d)]"
  define h3 where "h3 = h2 @ [Arr1 (np_sum_axis1 A (np_square A d))]"
  define h4 where "h4 = h3 @ [ArrD distances]"
  define h5 where "h5 = h4 @ [ArrI (argsort distances)]"
  define h6 where "h6 = h5 @ [ArrI idx]"
  have s1: "ref_subtract A pv pt h = (Inr (length h), h1)"
    by (simp add: ref_subtract_run [OF m t] Inr new_matrix_def new_array_def h1_def)
  have s2: "ref_square A (length h) h1 = (Inr (length h1), h2)"
    unfolding h2_def by (rule ref_square_run) (simp add: h1_def lookup_new)
  have s3: "ref_sum_axis1 A (length h1) h2 = (Inr (length h2), h3)"
    unfolding h3_def by (rule ref_sum_axis1_run) (simp add: h2_def lookup_new)
  have s4: "ref_sqrt A (length h2) h3 = (Inr (length h3), h4)"
    unfolding h4_def distances_def by (rule ref_sqrt_run) (simp add: h3_def lookup_new)
  have s5: "ref_argsort argsort (length h3) h4 = (Inr (length h4), h5)"
    unfolding h5_def by (rule ref_argsort_run) (simp add: h4_def lookup_new)
  have s6: "ref_slice_to (length h4) k h5 = (Inr (length h5), h6)"
    unfolding h6_def idx_def by (rule ref_slice_to_run) (simp add: h5_def lookup_new)
  have "lookup h6 pv = Some (Arr2 m)"
    unfolding h6_def h5_def h4_def h3_def h2_def h1_def
    by (intro lookup_append_old m)
  moreover have "lookup h6 (length h5) = Some (ArrI idx)"
    by (simp add: h6_def lookup_new)
  ultimately have s7: "ref_take pv (length h5) h6 = new_matrix (np_take m idx) h6"
    by (rule ref_take_run)
  have "k_closest_vectors_heap A argsort pt pv k h = new_matrix (np_take m idx) h6"
    unfolding k_closest_vectors_heap_def
    by (simp only: np_bind_def prod.case sum.case s1 s2 s3 s4 s5 s6 s7)
  moreover have "k_closest_vectors A argsort t m k = np_take m idx"
    unfolding k_closest_vectors_def Let_def idx_def distances_def
    by (simp only: Inr sum.case)
  moreover have "h6 = h @ [Arr2 d, Arr2 (np_square A d), Arr1 (np_sum_axis1 A (np_square A d)),
      ArrD distances, ArrI (argsort distances), ArrI idx]"
    by (simp add: h6_def h5_def h4_def h3_def h2_def h1_def)
  ultimately show ?thesis by (intro exI) simp
qed

lemma k_closest_vectors_heap_run:
  assumes "lookup h pt = Some (Arr1 t)" and "lookup h pv = Some (Arr2 m)"
  shows "result_of (k_closest_vectors_heap A argsort pt pv k h) =
         map_sum id (\<lambda>res. Some (Arr2 res)) (k_closest_vectors A argsort t m k)"
proof -
  from k_closest_vectors_heap_steps [OF assms]
  obtain tmp where "k_closest_vectors_heap A argsort pt pv k h =
      new_matrix (k_closest_vectors A argsort t m k) (h @ tmp)" ..
  then show ?thesis by (simp only: result_of_new_matrix)
qed

section \<open>Facts about float64\<close>

text \<open>
  Rounding leaves an integer of at most 53 bits as it is; \<open>2\<^sup>5\<^sup>4\<close> is a float64, and
  \<open>2\<^sup>5\<^sup>4 + 1\<close>, which lies a quarter of the way to the next one, is rounded down to
  it.
\<close>

lemma round_half_even_int: "round_half_even (of_int m) = m"
  by (simp add: round_half_even_def)

lemma ulp_pos: "0 < ulp x"
  by (simp add: ulp_def)

lemma max_f64_large: "2 ^ 55 \<le> max_f64"
proof -
  have "(2::real) ^ 55 \<le> (2 ^ 53 - 1) * 2 ^ 3"
    by simp
  also have "\<dots> \<le> (2 ^ 53 - 1) * 2 ^ 971"
    by (intro mult_left_mono power_increasing) simp_all
  finally show ?thesis by (simp only: max_f64_def)
qed

lemma round_f64_exact:
  assumes "x / ulp x = of_int m" and "\<bar>x\<bar> \<le> max_f64"
  shows "round_f64 x = Fin x"
proof -
  have "of_int (round_half_even (x / ulp x)) * ulp x = (x / ulp x) * ulp x"
    by (simp only: assms(1) round_half_even_int)
  also have "\<dots> = x"
    using ulp_pos [of x] by simp
  finally have "of_int (round_half_even (x / ulp x)) * ulp x = x" .
  then have r: "(if x = 0 then 0 else of_int (round_half_even (x / ulp x)) * ulp x) = x"
    by simp
  from assms(2) have "\<not> max_f64 < x" and "\<not> x < - max_f64"
    by linarith+
  then show ?thesis
    unfolding round_f64_def Let_def r by simp
qed

lemma binade_eq:
  assumes "2 powr real_of_int e \<le> \<bar>x\<bar>" and "\<bar>x\<bar> < 2 powr real_of_int (e + 1)" and "- 1022 \<le> e"
  shows "binade x = e"
proof -
  have "0 < \<bar>x\<bar>" using assms(1) by (smt (verit) powr_gt_zero)
  then have "\<lfloor>log 2 \<bar>x\<bar>\<rfloor> = e"
    using assms(1,2) by (simp add: floor_log_eq_powr_iff)
  with assms(3) show ?thesis by (simp add: binade_def)
qed

lemma round_f64_zero: "round_f64 0 = Fin 0"
proof -
  have "0 < max_f64" using max_f64_large by (smt (verit) zero_less_power)
  then show ?thesis by (simp add: round_f64_def)
qed

lemma round_f64_int:
  assumes "\<bar>n\<bar> \<le> 2 ^ 53"
  shows "round_f64 (of_int n) = Fin (of_int n)"
proof (cases "n = 0")
  case True
  then show ?thesis by (simp add: round_f64_zero)
next
  case False
  define x :: real where "x = of_int n"
  define e where "e = \<lfloor>log 2 \<bar>x\<bar>\<rfloor>"
  have one: "1 \<le> \<bar>x\<bar>"
    using False by (simp add: x_def flip: of_int_abs)
  have top: "\<bar>x\<bar> \<le> 2 ^ 53"
  proof -
    have "real_of_int \<bar>n\<bar> \<le> real_of_int (2 ^ 53)"
      using assms by (simp only: of_int_le_iff)
    then show ?thesis by (simp add: x_def)
  qed
  have bounds: "2 powr real_of_int e \<le> \<bar>x\<bar>" "\<bar>x\<bar> < 2 powr real_of_int (e + 1)"
    using one floor_log_eq_powr_iff [of "\<bar>x\<bar>" 2 e] by (simp_all add: e_def)
  have e0: "0 \<le> e"
  proof -
    have "0 \<le> log 2 \<bar>x\<bar>" using one by simp
    then show ?thesis by (simp add: e_def)
  qed
  have e53: "e \<le> 53"
  proof -
    have "log 2 \<bar>x\<bar> \<le> log 2 (2 ^ 53)"
      using one top by simp
    also have "\<dots> = real 53" by (rule log_pow_cancel) simp_all
    finally have "\<lfloor>log 2 \<bar>x\<bar>\<rfloor> \<le> 53" by (simp add: floor_le_iff)
    then show ?thesis by (simp add: e_def)
  qed
  have b: "binade x = e"
    using e0 by (simp add: binade_def e_def)
  have u: "ulp x = 2 powr real_of_int (e - 52)"
    by (simp add: ulp_def b)
  have "\<exists>m. x / ulp x = of_int m"
  proof (cases "e \<le> 52")
    case True
    have "x / ulp x = x * 2 powr real_of_int (52 - e)"
      by (simp add: u powr_diff field_simps)
    also have "real_of_int (52 - e) = real (nat (52 - e))"
      using True by simp
    also have "2 powr real (nat (52 - e)) = (2::real) ^ nat (52 - e)"
      by (simp add: powr_realpow)
    finally have "x / ulp x = of_int (n * 2 ^ nat (52 - e))"
      by (simp add: x_def)
    then show ?thesis by blast
  next
    case False
    with e53 have e: "e = 53" by simp
    have "(2::real) ^ 53 \<le> \<bar>x\<bar>"
      using bounds(1) by (simp add: e)
    with top have "\<bar>x\<bar> = 2 ^ 53" by simp
    then have "real_of_int \<bar>n\<bar> = real_of_int (2 ^ 53)"
      by (simp add: x_def)
    then have "\<bar>n\<bar> = 2 ^ 53"
      by (simp only: of_int_eq_iff)
    then have n: "n = 2 ^ 53 \<or> n = - (2 ^ 53)"
      by linarith
    have "ulp x = 2" by (simp add: u e)
    then have "x / ulp x = of_int (n div 2)"
      using n by (auto simp: x_def)
    then show ?thesis by blast
  qed
  then obtain m where m: "x / ulp x = of_int m" ..
  have "\<bar>x\<bar> \<le> max_f64"
    using top max_f64_large by simp
  with m have "round_f64 x = Fin x" by (rule round_f64_exact)
  then show ?thesis by (simp only: x_def)
qed

lemma round_f64_numeral:
  "numeral w \<le> (2::int) ^ 53 \<Longrightarrow> round_f64 (numeral w) = Fin (numeral w)"
  using round_f64_int [of "numeral w"] by simp

lemma round_f64_one: "round_f64 1 = Fin 1"
  using round_f64_int [of 1] by simp

lemmas round_f64_small = round_f64_zero round_f64_one round_f64_numeral

lemma binade_two54: "binade (2 ^ 54) = 54" and binade_two54_plus1: "binade (2 ^ 54 + 1) = 54"
  by (rule binade_eq; simp)+

lemma round_f64_two54: "round_f64 (2 ^ 54) = Fin (2 ^ 54)"
proof (rule round_f64_exact)
  show "(2::real) ^ 54 / ulp (2 ^ 54) = of_int (2 ^ 52)"
    using binade_two54 by (simp add: ulp_def)
  show "\<bar>(2::real) ^ 54\<bar> \<le> max_f64"
    using max_f64_large by simp
qed

lemma round_f64_two54_plus1: "round_f64 (2 ^ 54 + 1) = Fin (2 ^ 54)"
proof -
  have u: "ulp (2 ^ 54 + 1) = 4"
    using binade_two54_plus1 by (simp add: ulp_def)
  have q: "(2 ^ 54 + 1) / (4::real) = of_int (2 ^ 52) + 1 / 4"
    by simp
  have "\<lfloor>of_int (2 ^ 52) + (1 / 4 :: real)\<rfloor> = 2 ^ 52"
    by (rule floor_unique) simp_all
  then have "round_half_even ((2 ^ 54 + 1) / 4) = 2 ^ 52"
    unfolding q round_half_even_def by simp
  with u have "of_int (round_half_even ((2 ^ 54 + 1) / ulp (2 ^ 54 + 1))) * ulp (2 ^ 54 + 1) =
      (2::real) ^ 54"
    by simp
  moreover have "\<not> max_f64 < 2 ^ 54" "\<not> (2::real) ^ 54 < - max_f64"
    using max_f64_large by simp_all
  ultimately show ?thesis
    by (simp add: round_f64_def Let_def)
qed

section \<open>The examples evaluated\<close>

lemma upt_two: "[0..<2] = [0, 1]" and upt_three: "[0..<3] = [0, 1, 2]"
  by (simp_all add: upt_rec numeral_nat)

lemma example_run:
  "k_closest_vectors exact (argsort_stable exact) [0, 0] example_vectors 2 =
     Inr \<lparr>ncols = 2, rows = [[1, 0], [0, 2]]\<rparr>"
  by (simp add: k_closest_vectors_def example_vectors_def np_subtract_def broadcast_shape_def
      broadcast_to_def np_square_def np_sum_axis1_def np_sqrt_def slice_to_def np_take_def
      nrows_def argsort_stable_def exact_def Let_def upt_rec numeral_nat)

lemma example_heap_run:
  "k_closest_vectors_heap exact (argsort_stable exact) 0 1 2 example_heap =
     (Inr 8, example_heap @
       [Arr2 \<lparr>ncols = 2, rows = [[3, 4], [1, 0], [0, 2]]\<rparr>,
        Arr2 \<lparr>ncols = 2, rows = [[9, 16], [1, 0], [0, 4]]\<rparr>,
        Arr1 [25, 1, 4], ArrD [5, 1, 2], ArrI [1, 2, 0], ArrI [1, 2],
        Arr2 \<lparr>ncols = 2, rows = [[1, 0], [0, 2]]\<rparr>])"
  by (simp add: k_closest_vectors_heap_def ref_subtract_def ref_square_def ref_sum_axis1_def
      ref_sqrt_def ref_argsort_def ref_slice_to_def ref_take_def np_bind_def read1_def read2_def
      readD_def readI_def new_matrix_def new_array_def np_raise_def lookup_def example_heap_def
      example_vectors_def np_subtract_def broadcast_shape_def
      broadcast_to_def np_square_def np_sum_axis1_def np_sqrt_def slice_to_def np_take_def
      nrows_def argsort_stable_def exact_def Let_def upt_rec numeral_nat nth_append)

lemma example_f64_wf: "wf_ndarray2 example_f64"
  by (simp add: wf_ndarray2_def example_f64_def)

lemma example_f64_distances:
  "distances_of float64 [Fin 0, Fin 0] example_f64 = [Fin 5, Fin 1, Fin 2]"
  by (simp add: distances_of_def computed_distance_def float64_def f64_sum_def example_f64_def
      round_f64_small)

lemma example_f64_order:
  "argsort_stable float64 (distances_of float64 [Fin 0, Fin 0] example_f64) = [1, 2, 0]"
  by (simp only: argsort_stable_def example_f64_distances) (simp add: float64_def upt_three)

lemma example_f64_run:
  "k_closest_vectors float64 (argsort_stable float64) [Fin 0, Fin 0] example_f64 2 =
     Inr \<lparr>ncols = 2, rows = [[Fin 1, Fin 0], [Fin 0, Fin 2]]\<rparr>"
proof -
  have "length [Fin 0, Fin 0] = ncols example_f64" by (simp add: example_f64_def)
  from k_closest_vectors_rows [OF argsort_stable_spec [of float64] example_f64_wf this, where k = 2]
  show ?thesis by (simp add: example_f64_order slice_to_def) (simp add: example_f64_def)
qed

lemma example_f64_run_all:
  "k_closest_vectors float64 (argsort_stable float64) [Fin 0, Fin 0] example_f64 5 =
     Inr \<lparr>ncols = 2, rows = [[Fin 1, Fin 0], [Fin 0, Fin 2], [Fin 3, Fin 4]]\<rparr>"
proof -
  have "length [Fin 0, Fin 0] = ncols example_f64" by (simp add: example_f64_def)
  from k_closest_vectors_rows [OF argsort_stable_spec [of float64] example_f64_wf this, where k = 5]
  show ?thesis by (simp add: example_f64_order slice_to_def) (simp add: example_f64_def)
qed

lemma example_f64_ranks:
  "distance_rank float64 [Fin 0, Fin 0] [Fin 3, Fin 4] = (1, 5)"
  "distance_rank float64 [Fin 0, Fin 0] [Fin 1, Fin 0] = (1, 1)"
  "distance_rank float64 [Fin 0, Fin 0] [Fin 0, Fin 2] = (1, 2)"
  "distance_rank float64 [Fin 0, Fin 0] [Fin 0, Fin 1] = (1, 1)"
  by (simp_all add: distance_rank_def computed_distance_def float64_def f64_sum_def
      round_f64_small)


lemma example_f64_scan:
  "linear_scan_knn float64 [Fin 0, Fin 0] (rows example_f64) 2 = [[Fin 1, Fin 0], [Fin 0, Fin 2]]"
  by (simp add: linear_scan_knn_def scan_step_def example_f64_def example_f64_ranks)

lemma broadcast_f64_run:
  "k_closest_vectors float64 (argsort_stable float64) [Fin 0] example_f64 2 =
     Inr \<lparr>ncols = 2, rows = [[Fin 1, Fin 0], [Fin 0, Fin 2]]\<rparr>"
  by (simp add: k_closest_vectors_def example_f64_def np_subtract_def broadcast_shape_def
      broadcast_to_def np_square_def np_sum_axis1_def np_sqrt_def slice_to_def np_take_def
      nrows_def argsort_stable_def float64_def f64_sum_def round_f64_small Let_def upt_three
      numeral_2_eq_2)

lemma tied_f64_wf: "wf_ndarray2 tied_f64"
  by (simp add: wf_ndarray2_def tied_f64_def)

lemma tied_f64_distances:
  "distances_of float64 [Fin 0, Fin 0] tied_f64 = [Fin 1, Fin 1]"
  by (simp add: distances_of_def computed_distance_def float64_def f64_sum_def tied_f64_def
      round_f64_small)

lemma tied_f64_run:
  "k_closest_vectors float64 (argsort_stable float64) [Fin 0, Fin 0] tied_f64 1 =
     Inr \<lparr>ncols = 2, rows = [[Fin 1, Fin 0]]\<rparr>"
proof -
  have o: "argsort_stable float64 (distances_of float64 [Fin 0, Fin 0] tied_f64) = [0, 1]"
    by (simp only: argsort_stable_def tied_f64_distances) (simp add: float64_def upt_two)
  have "length [Fin 0, Fin 0] = ncols tied_f64" by (simp add: tied_f64_def)
  from k_closest_vectors_rows [OF argsort_stable_spec [of float64] tied_f64_wf this, where k = 1]
  show ?thesis by (simp add: o slice_to_def) (simp add: tied_f64_def)
qed

lemma tied_f64_run_last_first:
  "k_closest_vectors float64 (argsort_last_first float64) [Fin 0, Fin 0] tied_f64 1 =
     Inr \<lparr>ncols = 2, rows = [[Fin 0, Fin 1]]\<rparr>"
proof -
  have o: "argsort_last_first float64 (distances_of float64 [Fin 0, Fin 0] tied_f64) = [1, 0]"
    by (simp only: argsort_last_first_def tied_f64_distances) (simp add: float64_def upt_two)
  have "length [Fin 0, Fin 0] = ncols tied_f64" by (simp add: tied_f64_def)
  from k_closest_vectors_rows [OF argsort_last_first_spec [of float64] tied_f64_wf this,
      where k = 1]
  show ?thesis by (simp add: o slice_to_def) (simp add: tied_f64_def)
qed

lemma tied_f64_scan:
  "linear_scan_knn float64 [Fin 0, Fin 0] (rows tied_f64) 1 = [[Fin 0, Fin 1]]"
  by (simp add: linear_scan_knn_def scan_step_def tied_f64_def example_f64_ranks)

lemma close_f64_wf: "wf_ndarray2 close_f64"
  by (simp add: wf_ndarray2_def close_f64_def)

lemma close_distances:
  "computed_distance float64 [Fin 0, Fin 0] [Fin (2 ^ 27), Fin 1] = Fin (2 ^ 27)"
  "computed_distance float64 [Fin 0, Fin 0] [Fin (2 ^ 27), Fin 0] = Fin (2 ^ 27)"
proof -
  have s: "sqrt (2 ^ 54) = 2 ^ 27"
    by (rule real_sqrt_unique) simp_all
  have r27: "round_f64 (2 ^ 27) = Fin (2 ^ 27)"
    using round_f64_int [of "2 ^ 27"] by simp
  have sq: "f64_square (Fin (2 ^ 27)) = Fin (2 ^ 54)"
    using round_f64_two54 by simp
  have a1: "f64_add (Fin (2 ^ 54)) (Fin 1) = Fin (2 ^ 54)"
    using round_f64_two54_plus1 by simp
  have a0: "f64_add (Fin (2 ^ 54)) (Fin 0) = Fin (2 ^ 54)"
    using round_f64_two54 by simp
  have z: "f64_add (Fin 0) (Fin (2 ^ 54)) = Fin (2 ^ 54)"
    using round_f64_two54 by simp
  have rt: "f64_sqrt (Fin (2 ^ 54)) = Fin (2 ^ 27)"
    using s r27 by simp
  have d: "f64_sub (Fin (2 ^ 27)) (Fin 0) = Fin (2 ^ 27)" "f64_sub (Fin 1) (Fin 0) = Fin 1"
    "f64_sub (Fin 0) (Fin 0) = Fin 0"
    using r27 by (simp_all add: round_f64_small)
  have q: "f64_square (Fin 1) = Fin 1" "f64_square (Fin 0) = Fin 0"
    by (simp_all add: round_f64_small)
  show "computed_distance float64 [Fin 0, Fin 0] [Fin (2 ^ 27), Fin 1] = Fin (2 ^ 27)"
    by (simp only: computed_distance_def float64_def dtype.simps f64_sum_def list.map zip.simps
        list.case prod.case foldl.simps d sq q z a1 rt zip_Cons_Cons zip_Nil)
  show "computed_distance float64 [Fin 0, Fin 0] [Fin (2 ^ 27), Fin 0] = Fin (2 ^ 27)"
    by (simp only: computed_distance_def float64_def dtype.simps f64_sum_def list.map zip.simps
        list.case prod.case foldl.simps d sq q z a0 rt zip_Cons_Cons zip_Nil)
qed

lemma close_f64_distances:
  "distances_of float64 [Fin 0, Fin 0] close_f64 = [Fin (2 ^ 27), Fin (2 ^ 27)]"
  by (simp only: distances_of_def close_f64_def ndarray2.simps list.map close_distances)

lemma close_f64_order:
  "argsort_stable float64 (distances_of float64 [Fin 0, Fin 0] close_f64) = [0, 1]"
  by (simp only: argsort_stable_def close_f64_distances) (simp add: float64_def upt_two)

lemma close_f64_run:
  "k_closest_vectors float64 (argsort_stable float64) [Fin 0, Fin 0] close_f64 k =
     Inr \<lparr>ncols = 2, rows = slice_to [[Fin (2 ^ 27), Fin 1], [Fin (2 ^ 27), Fin 0]] k\<rparr>"
proof -
  have "length [Fin 0, Fin 0] = ncols close_f64" by (simp add: close_f64_def)
  from k_closest_vectors_rows [OF argsort_stable_spec [of float64] close_f64_wf this, where k = k]
  show ?thesis
    by (simp add: close_f64_order slice_to_def take_Cons') (simp add: close_f64_def)
qed

lemma close_true_distances:
  "euclidean (map f64_value [Fin (2 ^ 27), Fin 0]) (map f64_value [Fin 0, Fin 0]) <
   euclidean (map f64_value [Fin (2 ^ 27), Fin 1]) (map f64_value [Fin 0, Fin 0])"
proof -
  have "(2::real) ^ 27 < sqrt (2 ^ 54 + 1)"
    by (rule real_less_rsqrt) simp
  moreover have "sqrt (2 ^ 54) = (2::real) ^ 27"
    by (rule real_sqrt_unique) simp_all
  ultimately have "sqrt (2 ^ 54) < sqrt (2 ^ 54 + 1 :: real)"
    by simp
  then show ?thesis
    by (simp add: euclidean_def upt_rec numeral_nat)
qed

lemma close_not_sorted:
  "\<not> sorted (map (\<lambda>r. euclidean (map f64_value r) (map f64_value [Fin 0, Fin 0]))
      [[Fin (2 ^ 27), Fin 1], [Fin (2 ^ 27), Fin 0]])"
  using close_true_distances by simp

lemma close_swapped_f64_wf: "wf_ndarray2 close_swapped_f64"
  by (simp add: wf_ndarray2_def close_swapped_f64_def)

lemma close_swapped_f64_distances:
  "distances_of float64 [Fin 0, Fin 0] close_swapped_f64 = [Fin (2 ^ 27), Fin (2 ^ 27)]"
  by (simp only: distances_of_def close_swapped_f64_def ndarray2.simps list.map close_distances)

lemma close_either_order:
  assumes "argsort_spec float64 argsort"
  shows "k_closest_vectors float64 argsort [Fin 0, Fin 0] close_f64 1 =
           Inr \<lparr>ncols = 2, rows = [[Fin (2 ^ 27), Fin 1]]\<rparr> \<or>
         k_closest_vectors float64 argsort [Fin 0, Fin 0] close_swapped_f64 1 =
           Inr \<lparr>ncols = 2, rows = [[Fin (2 ^ 27), Fin 1]]\<rparr>"
proof -
  let ?ds = "[Fin (2 ^ 27), Fin (2 ^ 27)]"
  have len: "length (argsort ?ds) = 2"
    using argsort_length [OF assms, of ?ds] by simp
  then obtain i j where ij: "argsort ?ds = [i, j]"
    by (auto simp: length_Suc_conv numeral_2_eq_2)
  have "i \<in> set (argsort ?ds)" using ij by simp
  then have "i \<in> {0..<2}"
    using argsort_set [OF assms, of ?ds] by simp
  then have i: "i = 0 \<or> i = 1" by auto
  have l1: "length [Fin 0, Fin 0] = ncols close_f64" by (simp add: close_f64_def)
  have l2: "length [Fin 0, Fin 0] = ncols close_swapped_f64"
    by (simp add: close_swapped_f64_def)
  have r1: "k_closest_vectors float64 argsort [Fin 0, Fin 0] close_f64 1 =
      Inr \<lparr>ncols = 2, rows = [rows close_f64 ! i]\<rparr>"
    using k_closest_vectors_rows [OF assms close_f64_wf l1, where k = 1]
    unfolding close_f64_distances ij by (simp add: slice_to_def) (simp add: close_f64_def)
  have r2: "k_closest_vectors float64 argsort [Fin 0, Fin 0] close_swapped_f64 1 =
      Inr \<lparr>ncols = 2, rows = [rows close_swapped_f64 ! i]\<rparr>"
    using k_closest_vectors_rows [OF assms close_swapped_f64_wf l2, where k = 1]
    unfolding close_swapped_f64_distances ij
    by (simp add: slice_to_def) (simp add: close_swapped_f64_def)
  from i show ?thesis
  proof
    assume "i = 0"
    then show ?thesis using r1 by (simp add: close_f64_def)
  next
    assume "i = 1"
    then show ?thesis using r2 by (simp add: close_swapped_f64_def)
  qed
qed

lemma close_never_both:
  "\<not> (\<exists>argsort. argsort_spec float64 argsort \<and>
        k_closest_vectors float64 argsort [Fin 0, Fin 0] close_f64 1 =
          Inr \<lparr>ncols = 2, rows = [[Fin (2 ^ 27), Fin 0]]\<rparr> \<and>
        k_closest_vectors float64 argsort [Fin 0, Fin 0] close_swapped_f64 1 =
          Inr \<lparr>ncols = 2, rows = [[Fin (2 ^ 27), Fin 0]]\<rparr>)"
proof
  assume "\<exists>argsort. argsort_spec float64 argsort \<and>
        k_closest_vectors float64 argsort [Fin 0, Fin 0] close_f64 1 =
          Inr \<lparr>ncols = 2, rows = [[Fin (2 ^ 27), Fin 0]]\<rparr> \<and>
        k_closest_vectors float64 argsort [Fin 0, Fin 0] close_swapped_f64 1 =
          Inr \<lparr>ncols = 2, rows = [[Fin (2 ^ 27), Fin 0]]\<rparr>"
  then obtain argsort where a: "argsort_spec float64 argsort"
    and b: "k_closest_vectors float64 argsort [Fin 0, Fin 0] close_f64 1 =
          Inr \<lparr>ncols = 2, rows = [[Fin (2 ^ 27), Fin 0]]\<rparr>"
    and c: "k_closest_vectors float64 argsort [Fin 0, Fin 0] close_swapped_f64 1 =
          Inr \<lparr>ncols = 2, rows = [[Fin (2 ^ 27), Fin 0]]\<rparr>"
    by blast
  from close_either_order [OF a] b c show False by simp
qed

lemma wrapped_i64_wf: "wf_ndarray2 wrapped_i64"
  by (simp add: wf_ndarray2_def wrapped_i64_def)

lemma square_wraps: "elt_square int64 (2 ^ 32) = 0"
  by (simp add: int64_def)

lemma wrapped_i64_distances:
  "distances_of int64 [0, 0] wrapped_i64 = [Fin 0, Fin 1]"
  by (simp add: distances_of_def computed_distance_def wrapped_i64_def int64_def
      round_f64_small)

lemma wrapped_i64_order:
  assumes "argsort_spec int64 argsort"
  shows "argsort (distances_of int64 [0, 0] wrapped_i64) = [0, 1]"
proof -
  have "distinct (map (sort_rank int64) [Fin 0, Fin 1])"
    by (simp add: int64_def)
  from argsort_unique [OF assms argsort_stable_spec [of int64] this]
  show ?thesis
    unfolding wrapped_i64_distances
    by (simp add: argsort_stable_def int64_def upt_two)
qed

lemma wrapped_i64_run:
  assumes "argsort_spec int64 argsort"
  shows "k_closest_vectors int64 argsort [0, 0] wrapped_i64 k =
     Inr \<lparr>ncols = 2, rows = slice_to [[2 ^ 32, 0], [1, 0]] k\<rparr>"
proof -
  have "length [0, 0 :: 64 word] = ncols wrapped_i64" by (simp add: wrapped_i64_def)
  from k_closest_vectors_rows [OF assms wrapped_i64_wf this, where k = k]
  show ?thesis
    by (simp add: wrapped_i64_order [OF assms] slice_to_def take_Cons')
       (simp add: wrapped_i64_def)
qed

lemma wrapped_stable_run:
  "k_closest_vectors int64 (argsort_stable int64) [0, 0] wrapped_i64 k =
     Inr \<lparr>ncols = 2, rows = slice_to [[2 ^ 32, 0], [1, 0]] k\<rparr>"
  by (rule wrapped_i64_run [OF argsort_stable_spec])

lemma wrapped_values:
  "map (\<lambda>x. real_of_int (sint x)) [2 ^ 32, 0 :: 64 word] = [2 ^ 32, 0] \<and>
   map (\<lambda>x. real_of_int (sint x)) [1, 0 :: 64 word] = [1, 0]"
  by simp

lemma wrapped_true_distances:
  "euclidean [1, 0] [0, 0] < euclidean [2 ^ 32, 0] [0, 0]"
  by (simp add: euclidean_def upt_two real_less_rsqrt)

lemma wrapped_never_nearest:
  "\<not> (\<exists>argsort. argsort_spec int64 argsort \<and>
        k_closest_vectors int64 argsort [0, 0] wrapped_i64 1 =
          Inr \<lparr>ncols = 2, rows = [[1, 0]]\<rparr>)"
proof
  assume "\<exists>argsort. argsort_spec int64 argsort \<and>
        k_closest_vectors int64 argsort [0, 0] wrapped_i64 1 =
          Inr \<lparr>ncols = 2, rows = [[1, 0]]\<rparr>"
  then obtain argsort where a: "argsort_spec int64 argsort"
    and r: "k_closest_vectors int64 argsort [0, 0] wrapped_i64 1 =
          Inr \<lparr>ncols = 2, rows = [[1, 0]]\<rparr>"
    by blast
  from r show False
    unfolding wrapped_i64_run [OF a] by (simp add: slice_to_def)
qed

lemma wrapped_never_in_order:
  "\<not> (\<exists>argsort k. argsort_spec int64 argsort \<and> 2 \<le> k \<and>
        k_closest_vectors int64 argsort [0, 0] wrapped_i64 k =
          Inr \<lparr>ncols = 2, rows = [[1, 0], [2 ^ 32, 0]]\<rparr>)"
proof
  assume "\<exists>argsort k. argsort_spec int64 argsort \<and> 2 \<le> k \<and>
        k_closest_vectors int64 argsort [0, 0] wrapped_i64 k =
          Inr \<lparr>ncols = 2, rows = [[1, 0], [2 ^ 32, 0]]\<rparr>"
  then obtain argsort k where a: "argsort_spec int64 argsort" and k: "2 \<le> k"
    and r: "k_closest_vectors int64 argsort [0, 0] wrapped_i64 k =
          Inr \<lparr>ncols = 2, rows = [[1, 0], [2 ^ 32, 0]]\<rparr>"
    by blast
  from r k show False
    unfolding wrapped_i64_run [OF a] by (simp add: slice_to_def)
qed

section \<open>Facts about the collection\<close>

lemma upsert_point_invariant:
  assumes "same_dimension c" and "upsert_point c p = Inr c'"
  shows "same_dimension c' \<and> config c' = config c"
  using assms by (auto simp: upsert_point_def same_dimension_def list_all_iff split: if_splits)

lemma upsert_all_invariant:
  "same_dimension c \<Longrightarrow>
     same_dimension (snd (upsert_all c ps)) \<and> config (snd (upsert_all c ps)) = config c"
proof (induction ps arbitrary: c)
  case Nil
  then show ?case by simp
next
  case (Cons p ps)
  show ?case
  proof (cases "upsert_point c p")
    case (Inl e)
    with Cons.prems show ?thesis by simp
  next
    case (Inr c')
    from upsert_point_invariant [OF Cons.prems Inr]
    have "same_dimension c'" and cfg: "config c' = config c" by simp_all
    from Cons.IH [OF this(1)] cfg Inr show ?thesis by simp
  qed
qed

lemma upload_points_invariant:
  assumes "dimension_invariant db"
  shows "dimension_invariant (snd (upload_points db name pts))"
proof (cases "db name")
  case None
  with assms show ?thesis by (simp add: upload_points_def)
next
  case (Some c)
  with assms have "same_dimension c" by (simp add: dimension_invariant_def)
  then have "same_dimension (snd (upsert_all c pts))"
    using upsert_all_invariant by blast
  with assms Some show ?thesis
    by (auto simp: upload_points_def dimension_invariant_def split: prod.splits)
qed

lemma recreate_collection_invariant:
  assumes "dimension_invariant db"
  shows "dimension_invariant (recreate_collection db name params)"
  using assms
  by (auto simp: recreate_collection_def dimension_invariant_def same_dimension_def)

lemma search_unchanged: "snd (search similarity db name q limit) = db"
  by (simp add: search_def split: option.split)

lemma upsert_all_distinct:
  assumes "distinct (map point_id ps)"
    and "list_all (\<lambda>p. length (vector p) = vec_size (config c)) ps"
  shows "upsert_all c ps =
     (None, c\<lparr>points := filter (\<lambda>q. point_id q \<notin> set (map point_id ps)) (points c) @ ps\<rparr>)"
  using assms
proof (induction ps arbitrary: c)
  case Nil
  then show ?case by simp
next
  case (Cons p ps)
  let ?c' = "c\<lparr>points := filter (\<lambda>q. point_id q \<noteq> point_id p) (points c) @ [p]\<rparr>"
  from Cons.prems have step: "upsert_point c p = Inr ?c'"
    by (simp add: upsert_point_def)
  from Cons.prems have d: "distinct (map point_id ps)" and fresh: "point_id p \<notin> set (map point_id ps)"
    and ok: "list_all (\<lambda>p. length (vector p) = vec_size (config ?c')) ps"
    by simp_all
  have "upsert_all c (p # ps) = upsert_all ?c' ps"
    by (simp add: step)
  also have "\<dots> = (None, ?c'\<lparr>points :=
      filter (\<lambda>q. point_id q \<notin> set (map point_id ps)) (points ?c') @ ps\<rparr>)"
    using d ok by (rule Cons.IH)
  also have "filter (\<lambda>q. point_id q \<notin> set (map point_id ps)) (points ?c') @ ps =
      filter (\<lambda>q. point_id q \<notin> set (map point_id (p # ps))) (points c) @ p # ps"
    using fresh by (auto intro: filter_cong)
  finally show ?case by simp
qed

lemma movie_records_ids:
  assumes "length embs = length movies"
  shows "map point_id (movie_records embs movies) = [0..<length movies]"
  using assms by (intro nth_equalityI) (simp_all add: movie_records_def)

lemma movie_records_vectors:
  assumes "length embs = length movies"
  shows "map vector (movie_records embs movies) = embs"
  using assms by (intro nth_equalityI) (simp_all add: movie_records_def)

lemma build_movies_collection_run:
  assumes "fixed_length enc"
  shows "build_movies_collection enc movies db =
     (None, db(''movies'' \<mapsto>
        \<lparr>config = \<lparr>vec_size = get_sentence_embedding_dimension enc, metric = COSINE\<rparr>,
         points = movie_records (get_embeddings enc movies) movies\<rparr>))"
proof -
  let ?recs = "movie_records (get_embeddings enc movies) movies"
  let ?c0 = "\<lparr>config = \<lparr>vec_size = get_sentence_embedding_dimension enc, metric = COSINE\<rparr>,
              points = []\<rparr>"
  have len: "length (get_embeddings enc movies) = length movies"
    by (simp add: get_embeddings_def)
  have "map point_id ?recs = [0..<length movies]"
    using len by (rule movie_records_ids)
  then have d: "distinct (map point_id ?recs)" by simp
  have vs: "map vector ?recs = get_embeddings enc movies"
    using len by (rule movie_records_vectors)
  have "length v = get_sentence_embedding_dimension enc" if "v \<in> set (map vector ?recs)" for v
    using that assms unfolding vs by (auto simp: get_embeddings_def fixed_length_def)
  then have ok: "list_all (\<lambda>p. length (vector p) = vec_size (config ?c0)) ?recs"
    by (simp add: list_all_iff)
  have "upsert_all ?c0 ?recs = (None, ?c0\<lparr>points := ?recs\<rparr>)"
    using upsert_all_distinct [OF d ok] by simp
  then show ?thesis
    by (simp add: build_movies_collection_def upload_points_def recreate_collection_def)
qed

lemma example_encoder_fixed_length: "fixed_length example_encoder"
  by (simp add: fixed_length_def encode_def get_sentence_embedding_dimension_def
      example_encoder_def)

lemma empty_invariant: "dimension_invariant Map.empty"
  by (simp add: dimension_invariant_def)

section \<open>The claims\<close>

text \<open>
  Claim C1, as amended. For a well-formed matrix with \<open>n\<close> rows, a query of the rows'
  length and \<open>0 \<le> k \<le> n\<close>, \<open>k_closest_vectors\<close> returns exactly \<open>k\<close> rows of the
  matrix, the rows at \<open>k\<close> distinct row indices, and the distance that the function
  computes for a returned row, in the arithmetic of the arrays, is in NumPy's sort
  order at most the distance it computes for any row that is not returned. This
  holds in every arithmetic and for whatever order argsort gives to equal
  distances. In exact arithmetic the computed distance is the Euclidean distance.
\<close>

theorem k_closest_vectors_nearest:
  assumes "argsort_spec A argsort"
    and "wf_ndarray2 vectors"
    and "length target_vec = ncols vectors"
    and "0 \<le> k" and "k \<le> int (nrows vectors)"
  shows "(\<exists>idx. k_closest_vectors A argsort target_vec vectors k =
             Inr \<lparr>ncols = ncols vectors, rows = map (\<lambda>i. rows vectors ! i) idx\<rparr> \<and>
           length idx = nat k \<and> distinct idx \<and> set idx \<subseteq> {0..<nrows vectors} \<and>
           (\<forall>i \<in> set idx. \<forall>j \<in> {0..<nrows vectors} - set idx.
              distance_rank A target_vec (rows vectors ! i)
                \<le> distance_rank A target_vec (rows vectors ! j))) \<and>
         (\<forall>r u. length r = length u \<longrightarrow> distance_rank exact u r = euclidean r u)"
proof -
  let ?ds = "distances_of A target_vec vectors"
  let ?idx = "take (nat k) (argsort ?ds)"
  have len: "length (argsort ?ds) = nrows vectors"
    by (simp add: argsort_length [OF assms(1)] length_distances_of)
  have run: "k_closest_vectors A argsort target_vec vectors k =
      Inr \<lparr>ncols = ncols vectors, rows = map (\<lambda>i. rows vectors ! i) ?idx\<rparr>"
    using assms(4) by (simp only: k_closest_vectors_rows [OF assms(1-3)] slice_to_nonneg)
  have count: "length ?idx = nat k"
    using assms(5) len by simp
  have dist: "distinct ?idx"
    using argsort_distinct [OF assms(1)] by (rule distinct_take)
  have sub: "set ?idx \<subseteq> {0..<nrows vectors}"
  proof
    fix i assume "i \<in> set ?idx"
    then have "i \<in> set (argsort ?ds)" by (rule in_set_takeD)
    then show "i \<in> {0..<nrows vectors}"
      by (simp add: argsort_set [OF assms(1)] length_distances_of)
  qed
  have near: "distance_rank A target_vec (rows vectors ! i)
      \<le> distance_rank A target_vec (rows vectors ! j)"
    if "i \<in> set ?idx" and "j \<in> {0..<nrows vectors} - set ?idx" for i j
  proof -
    from that(2) have j: "j < length ?ds" "j \<notin> set ?idx"
      by (simp_all add: length_distances_of)
    from that(1) sub have i: "i < nrows vectors" by auto
    have "sort_rank A (?ds ! i) \<le> sort_rank A (?ds ! j)"
      using assms(1) that(1) j by (rule argsort_prefix_minimal)
    then show ?thesis
      using i j(1) by (simp add: distances_of_nth length_distances_of)
  qed
  have "\<exists>idx. k_closest_vectors A argsort target_vec vectors k =
             Inr \<lparr>ncols = ncols vectors, rows = map (\<lambda>i. rows vectors ! i) idx\<rparr> \<and>
           length idx = nat k \<and> distinct idx \<and> set idx \<subseteq> {0..<nrows vectors} \<and>
           (\<forall>i \<in> set idx. \<forall>j \<in> {0..<nrows vectors} - set idx.
              distance_rank A target_vec (rows vectors ! i)
                \<le> distance_rank A target_vec (rows vectors ! j))"
    using run count dist sub near by (intro exI [of _ ?idx]) blast
  then show ?thesis by (simp add: exact_distance)
qed

text \<open>
  The theorem in float64 at the query \<open>[0, 0]\<close>, the rows \<open>[3, 4]\<close>, \<open>[1, 0]\<close>,
  \<open>[0, 2]\<close> and \<open>k = 2\<close>: the rows at distance 1 and 2 are returned, the row at
  distance 5 is not. In exact arithmetic the computed distance of \<open>[3, 4]\<close> is its
  Euclidean distance.
\<close>

theorem k_closest_vectors_nearest_witness:
  "argsort_spec float64 (argsort_stable float64) \<and> wf_ndarray2 example_f64 \<and>
   length [Fin 0, Fin 0] = ncols example_f64 \<and>
   (0::int) \<le> 2 \<and> 2 \<le> int (nrows example_f64) \<and>
   k_closest_vectors float64 (argsort_stable float64) [Fin 0, Fin 0] example_f64 2 =
     Inr \<lparr>ncols = 2, rows = [[Fin 1, Fin 0], [Fin 0, Fin 2]]\<rparr> \<and>
   distance_rank float64 [Fin 0, Fin 0] [Fin 1, Fin 0]
     \<le> distance_rank float64 [Fin 0, Fin 0] [Fin 3, Fin 4] \<and>
   distance_rank float64 [Fin 0, Fin 0] [Fin 0, Fin 2]
     \<le> distance_rank float64 [Fin 0, Fin 0] [Fin 3, Fin 4] \<and>
   length [3, 4 :: real] = length [0, 0 :: real] \<and>
   distance_rank exact [0, 0] [3, 4] = euclidean [3, 4] [0, 0]"
proof -
  let ?t = "[Fin 0, Fin 0]"
  have h1: "argsort_spec float64 (argsort_stable float64)"
    by (rule argsort_stable_spec)
  have h3: "length ?t = ncols example_f64"
    by (simp add: example_f64_def)
  have h4: "(0::int) \<le> 2" by simp
  have h5: "2 \<le> int (nrows example_f64)"
    by (simp add: nrows_def example_f64_def)
  have h7: "length [3, 4 :: real] = length [0, 0 :: real]" by simp
  from k_closest_vectors_nearest [OF h1 example_f64_wf h3 h4 h5]
  have "\<forall>r u :: real list. length r = length u \<longrightarrow>
      distance_rank exact u r = euclidean r u"
    by (rule conjunct2)
  with h7 have ex: "distance_rank exact [0, 0] [3, 4] = euclidean [3, 4] [0, 0]"
    by blast
  from k_closest_vectors_nearest [OF h1 example_f64_wf h3 h4 h5]
  obtain idx where run: "k_closest_vectors float64 (argsort_stable float64) ?t example_f64 2 =
        Inr \<lparr>ncols = ncols example_f64, rows = map (\<lambda>i. rows example_f64 ! i) idx\<rparr>"
    and sub: "set idx \<subseteq> {0..<nrows example_f64}"
    and near: "\<forall>i \<in> set idx. \<forall>j \<in> {0..<nrows example_f64} - set idx.
        distance_rank float64 ?t (rows example_f64 ! i)
          \<le> distance_rank float64 ?t (rows example_f64 ! j)"
    by blast
  from run have m: "map (\<lambda>i. rows example_f64 ! i) idx = [[Fin 1, Fin 0], [Fin 0, Fin 2]]"
    by (simp add: example_f64_run)
  then obtain a b where ab: "idx = [a, b]"
    "rows example_f64 ! a = [Fin 1, Fin 0]" "rows example_f64 ! b = [Fin 0, Fin 2]"
    by (auto simp: map_eq_Cons_conv)
  from sub ab(1) have "a < 3" "b < 3"
    by (simp_all add: nrows_def example_f64_def)
  then have "a = 0 \<or> a = 1 \<or> a = 2" "b = 0 \<or> b = 1 \<or> b = 2" by auto
  with ab(2,3) have "a = 1" "b = 2"
    by (auto simp: example_f64_def)
  with ab(1) have idx: "idx = [1, 2]" by simp
  have "(0::nat) \<in> {0..<nrows example_f64} - set idx"
    by (simp add: idx nrows_def example_f64_def)
  with near have "\<forall>i \<in> set idx.
      distance_rank float64 ?t (rows example_f64 ! i)
        \<le> distance_rank float64 ?t (rows example_f64 ! 0)"
    by blast
  then have "distance_rank float64 ?t [Fin 1, Fin 0] \<le> distance_rank float64 ?t [Fin 3, Fin 4]"
    "distance_rank float64 ?t [Fin 0, Fin 2] \<le> distance_rank float64 ?t [Fin 3, Fin 4]"
    by (simp_all add: idx example_f64_def)
  with h1 example_f64_wf h3 h4 h5 example_f64_run h7 ex show ?thesis by simp
qed

text \<open>
  Claim C1 as first stated, with the Euclidean distance of the rows, fails in
  float64 and in int64. For the float64 rows \<open>[2\<^sup>2\<^sup>7, 1]\<close> and \<open>[2\<^sup>2\<^sup>7, 0]\<close> and the
  query \<open>[0, 0]\<close> both computed distances are \<open>2\<^sup>2\<^sup>7\<close>, and with \<open>k = 1\<close> the row
  returned is the first, which is farther from the query than the second. The order
  of the tie does not matter: no argsort that meets the contract returns the nearer
  row for both orders of the two rows. For the int64 rows \<open>[2\<^sup>3\<^sup>2, 0]\<close> and \<open>[1, 0]\<close>
  the computed distances are 0 and 1, the square having wrapped around, and with
  \<open>k = 1\<close> the farther row \<open>[2\<^sup>3\<^sup>2, 0]\<close> is returned, whatever the argsort.
\<close>

theorem farther_row_returned_counterexample:
  "distances_of float64 [Fin 0, Fin 0] close_f64 = [Fin (2 ^ 27), Fin (2 ^ 27)] \<and>
   k_closest_vectors float64 (argsort_stable float64) [Fin 0, Fin 0] close_f64 1 =
     Inr \<lparr>ncols = 2, rows = [[Fin (2 ^ 27), Fin 1]]\<rparr> \<and>
   rows close_f64 ! 1 = [Fin (2 ^ 27), Fin 0] \<and>
   euclidean (map f64_value [Fin (2 ^ 27), Fin 0]) (map f64_value [Fin 0, Fin 0]) <
   euclidean (map f64_value [Fin (2 ^ 27), Fin 1]) (map f64_value [Fin 0, Fin 0]) \<and>
   \<not> (\<exists>argsort. argsort_spec float64 argsort \<and>
        k_closest_vectors float64 argsort [Fin 0, Fin 0] close_f64 1 =
          Inr \<lparr>ncols = 2, rows = [[Fin (2 ^ 27), Fin 0]]\<rparr> \<and>
        k_closest_vectors float64 argsort [Fin 0, Fin 0] close_swapped_f64 1 =
          Inr \<lparr>ncols = 2, rows = [[Fin (2 ^ 27), Fin 0]]\<rparr>) \<and>
   distances_of int64 [0, 0] wrapped_i64 = [Fin 0, Fin 1] \<and>
   k_closest_vectors int64 (argsort_stable int64) [0, 0] wrapped_i64 1 =
     Inr \<lparr>ncols = 2, rows = [[2 ^ 32, 0]]\<rparr> \<and>
   rows wrapped_i64 ! 1 = [1, 0] \<and>
   euclidean [1, 0] [0, 0] < euclidean [2 ^ 32, 0] [0, 0] \<and>
   \<not> (\<exists>argsort. argsort_spec int64 argsort \<and>
        k_closest_vectors int64 argsort [0, 0] wrapped_i64 1 =
          Inr \<lparr>ncols = 2, rows = [[1, 0]]\<rparr>)"
proof -
  have "k_closest_vectors float64 (argsort_stable float64) [Fin 0, Fin 0] close_f64 1 =
     Inr \<lparr>ncols = 2, rows = [[Fin (2 ^ 27), Fin 1]]\<rparr>"
    by (simp add: close_f64_run slice_to_def)
  moreover have "rows close_f64 ! 1 = [Fin (2 ^ 27), Fin 0]"
    by (simp add: close_f64_def)
  moreover have "k_closest_vectors int64 (argsort_stable int64) [0, 0] wrapped_i64 1 =
     Inr \<lparr>ncols = 2, rows = [[2 ^ 32, 0]]\<rparr>"
    by (simp add: wrapped_stable_run slice_to_def)
  moreover have "rows wrapped_i64 ! 1 = [1, 0]"
    by (simp add: wrapped_i64_def)
  ultimately show ?thesis
    using close_f64_distances close_true_distances close_never_both
      wrapped_i64_distances wrapped_true_distances wrapped_never_nearest
    by (intro conjI) assumption+
qed

text \<open>
  Claim C2, as amended. \<open>k_closest_vectors\<close> agrees with the linear scan up to the
  choice among rows of equal computed distance: for a well-formed matrix, a query
  of the rows' length and \<open>0 \<le> k \<le> n\<close>, both return \<open>k\<close> rows of the matrix, and
  the computed distances of the rows of either, in the order returned, are the
  \<open>k\<close> smallest computed distances in NumPy's sort order. Where no two rows have
  the same computed distance the two return the same rows in the same order. In
  exact arithmetic the computed distance is the Euclidean distance.
\<close>

theorem k_closest_vectors_refines_linear_scan:
  assumes "argsort_spec A argsort"
    and "wf_ndarray2 vectors"
    and "length target_vec = ncols vectors"
    and "0 \<le> k" and "k \<le> int (nrows vectors)"
  shows "(\<exists>res. k_closest_vectors A argsort target_vec vectors k = Inr res \<and>
           length (rows res) = nat k \<and>
           length (linear_scan_knn A target_vec (rows vectors) (nat k)) = nat k \<and>
           mset (rows res) \<subseteq># mset (rows vectors) \<and>
           mset (linear_scan_knn A target_vec (rows vectors) (nat k)) \<subseteq># mset (rows vectors) \<and>
           map (distance_rank A target_vec) (rows res) =
             take (nat k) (sort (map (distance_rank A target_vec) (rows vectors))) \<and>
           map (distance_rank A target_vec) (linear_scan_knn A target_vec (rows vectors) (nat k)) =
             take (nat k) (sort (map (distance_rank A target_vec) (rows vectors))) \<and>
           (distinct (map (distance_rank A target_vec) (rows vectors)) \<longrightarrow>
              rows res = linear_scan_knn A target_vec (rows vectors) (nat k))) \<and>
         (\<forall>r u. length r = length u \<longrightarrow> distance_rank exact u r = euclidean r u)"
proof -
  let ?ds = "distances_of A target_vec vectors"
  let ?d = "distance_rank A target_vec"
  let ?idx = "take (nat k) (argsort ?ds)"
  let ?res = "\<lparr>ncols = ncols vectors, rows = map (\<lambda>i. rows vectors ! i) ?idx\<rparr>"
  let ?ref = "linear_scan_knn A target_vec (rows vectors) (nat k)"
  have len: "length (argsort ?ds) = nrows vectors"
    by (simp add: argsort_length [OF assms(1)] length_distances_of)
  have run: "k_closest_vectors A argsort target_vec vectors k = Inr ?res"
    using assms(4) by (simp only: k_closest_vectors_rows [OF assms(1-3)] slice_to_nonneg)
  have n1: "length (rows ?res) = nat k"
    using assms(5) len by simp
  have d1: "map ?d (rows ?res) = take (nat k) (sort (map ?d (rows vectors)))"
    using returned_ranks [OF assms(1), of target_vec vectors "nat k"]
    by (simp add: argsort_sorts [OF assms(1)] ranks_of_distances)
  have d2: "map ?d ?ref = take (nat k) (sort (map ?d (rows vectors)))"
    by (rule linear_scan_knn_ranks)
  have n2: "length ?ref = nat k"
  proof -
    have "length (map ?d ?ref) = length (take (nat k) (sort (map ?d (rows vectors))))"
      by (simp only: d2)
    then show ?thesis
      using assms(5) by (simp add: nrows_def)
  qed
  have s1: "mset (rows ?res) \<subseteq># mset (rows vectors)"
    using returned_rows_subseteq [OF assms(1), of ?ds vectors "nat k"]
    by (simp add: length_distances_of)
  have s2: "mset ?ref \<subseteq># mset (rows vectors)"
    unfolding linear_scan_knn_def by (rule scan_rows)
  have eq: "rows ?res = ?ref" if "distinct (map ?d (rows vectors))"
  proof (rule same_ranks_same_rows)
    show "map ?d (rows ?res) = map ?d ?ref"
      by (simp only: d1 d2)
    show "set (rows ?res) \<subseteq> set (rows vectors)"
      using s1 by (rule mset_subseteq_set)
    show "set ?ref \<subseteq> set (rows vectors)"
      using s2 by (rule mset_subseteq_set)
    show "distinct (map ?d (rows vectors))"
      by (rule that)
  qed
  have "\<exists>res. k_closest_vectors A argsort target_vec vectors k = Inr res \<and>
           length (rows res) = nat k \<and> length ?ref = nat k \<and>
           mset (rows res) \<subseteq># mset (rows vectors) \<and> mset ?ref \<subseteq># mset (rows vectors) \<and>
           map ?d (rows res) = take (nat k) (sort (map ?d (rows vectors))) \<and>
           map ?d ?ref = take (nat k) (sort (map ?d (rows vectors))) \<and>
           (distinct (map ?d (rows vectors)) \<longrightarrow> rows res = ?ref)"
    using run n1 n2 s1 s2 d1 d2 eq by (intro exI [of _ ?res]) blast
  then show ?thesis by (simp add: exact_distance)
qed

text \<open>
  The theorem in float64 at the example, where the computed distances are distinct:
  both return the rows \<open>[1, 0]\<close> and \<open>[0, 2]\<close>.
\<close>

theorem k_closest_vectors_refines_linear_scan_witness:
  "argsort_spec float64 (argsort_stable float64) \<and> wf_ndarray2 example_f64 \<and>
   length [Fin 0, Fin 0] = ncols example_f64 \<and>
   (0::int) \<le> 2 \<and> 2 \<le> int (nrows example_f64) \<and>
   distinct (map (distance_rank float64 [Fin 0, Fin 0]) (rows example_f64)) \<and>
   k_closest_vectors float64 (argsort_stable float64) [Fin 0, Fin 0] example_f64 2 =
     Inr \<lparr>ncols = 2, rows = [[Fin 1, Fin 0], [Fin 0, Fin 2]]\<rparr> \<and>
   linear_scan_knn float64 [Fin 0, Fin 0] (rows example_f64) (nat 2) =
     [[Fin 1, Fin 0], [Fin 0, Fin 2]] \<and>
   map (distance_rank float64 [Fin 0, Fin 0]) [[Fin 1, Fin 0], [Fin 0, Fin 2]] =
     take (nat 2) (sort (map (distance_rank float64 [Fin 0, Fin 0]) (rows example_f64))) \<and>
   length [3, 4 :: real] = length [0, 0 :: real] \<and>
   distance_rank exact [0, 0] [3, 4] = euclidean [3, 4] [0, 0]"
proof -
  let ?t = "[Fin 0, Fin 0]"
  have h1: "argsort_spec float64 (argsort_stable float64)"
    by (rule argsort_stable_spec)
  have h3: "length ?t = ncols example_f64"
    by (simp add: example_f64_def)
  have h4: "(0::int) \<le> 2" by simp
  have h5: "2 \<le> int (nrows example_f64)"
    by (simp add: nrows_def example_f64_def)
  have h6: "distinct (map (distance_rank float64 ?t) (rows example_f64))"
    by (simp add: example_f64_def example_f64_ranks)
  have h7: "length [3, 4 :: real] = length [0, 0 :: real]" by simp
  from k_closest_vectors_refines_linear_scan [OF h1 example_f64_wf h3 h4 h5]
  have "\<forall>r u :: real list. length r = length u \<longrightarrow>
      distance_rank exact u r = euclidean r u"
    by (rule conjunct2)
  with h7 have ex: "distance_rank exact [0, 0] [3, 4] = euclidean [3, 4] [0, 0]"
    by blast
  from k_closest_vectors_refines_linear_scan [OF h1 example_f64_wf h3 h4 h5]
  obtain res where res:
    "k_closest_vectors float64 (argsort_stable float64) ?t example_f64 2 = Inr res"
    "map (distance_rank float64 ?t) (rows res) =
       take (nat 2) (sort (map (distance_rank float64 ?t) (rows example_f64)))"
    "distinct (map (distance_rank float64 ?t) (rows example_f64)) \<longrightarrow>
       rows res = linear_scan_knn float64 ?t (rows example_f64) (nat 2)"
    by blast
  from res(1) have eq: "res = \<lparr>ncols = 2, rows = [[Fin 1, Fin 0], [Fin 0, Fin 2]]\<rparr>"
    by (simp add: example_f64_run)
  from res(3) h6 have "linear_scan_knn float64 ?t (rows example_f64) (nat 2) =
      [[Fin 1, Fin 0], [Fin 0, Fin 2]]"
    by (simp add: eq)
  moreover from res(2) have "map (distance_rank float64 ?t) [[Fin 1, Fin 0], [Fin 0, Fin 2]] =
     take (nat 2) (sort (map (distance_rank float64 ?t) (rows example_f64)))"
    by (simp add: eq)
  ultimately show ?thesis
    using h1 example_f64_wf h3 h4 h5 h6 example_f64_run h7 ex by simp
qed

text \<open>
  Claim C2 as first stated, the two being extensionally equal, fails where
  distances tie. Of the rows \<open>[1, 0]\<close> and \<open>[0, 1]\<close>, both at distance 1 from the
  query \<open>[0, 0]\<close>, \<open>k_closest_vectors\<close> with \<open>k = 1\<close> returns the first when argsort
  keeps ties in their order and the second when it reverses them, and both argsorts
  meet the contract: no function of the arguments alone is equal to it. The linear
  scan returns the second row.
\<close>

theorem tied_rows_differ_counterexample:
  "distances_of float64 [Fin 0, Fin 0] tied_f64 = [Fin 1, Fin 1] \<and>
   argsort_spec float64 (argsort_stable float64) \<and>
   k_closest_vectors float64 (argsort_stable float64) [Fin 0, Fin 0] tied_f64 1 =
     Inr \<lparr>ncols = 2, rows = [[Fin 1, Fin 0]]\<rparr> \<and>
   argsort_spec float64 (argsort_last_first float64) \<and>
   k_closest_vectors float64 (argsort_last_first float64) [Fin 0, Fin 0] tied_f64 1 =
     Inr \<lparr>ncols = 2, rows = [[Fin 0, Fin 1]]\<rparr> \<and>
   linear_scan_knn float64 [Fin 0, Fin 0] (rows tied_f64) 1 = [[Fin 0, Fin 1]]"
  using tied_f64_distances tied_f64_run tied_f64_run_last_first tied_f64_scan
    argsort_stable_spec [of float64] argsort_last_first_spec [of float64]
  by (intro conjI) assumption+

text \<open>
  Claim C3, as amended. \<open>k_closest_vectors\<close> validates nothing and handles no
  exception. Its only error is the \<open>ValueError\<close> of the subtraction, which reaches
  the caller as it is, with no array returned. It is raised exactly when the length
  of the query differs from the length of the rows and neither length is one. When
  one of the two lengths is one, the operands are broadcast, no error is raised and
  rows are returned.
\<close>

theorem k_closest_vectors_raises_iff:
  assumes "argsort_spec A argsort"
  shows "(k_closest_vectors A argsort target_vec vectors k = Inl e \<longleftrightarrow>
            e = ValueError \<and> length target_vec \<noteq> ncols vectors \<and>
            length target_vec \<noteq> 1 \<and> ncols vectors \<noteq> 1) \<and>
         (k_closest_vectors A argsort target_vec vectors k = Inl e \<longleftrightarrow>
            np_subtract A vectors target_vec = Inl e) \<and>
         (length target_vec = 1 \<or> ncols vectors = 1 \<longrightarrow>
            (\<exists>res. k_closest_vectors A argsort target_vec vectors k = Inr res \<and>
                   ncols res = ncols vectors \<and>
                   nrows res = length (slice_to (rows vectors) k)))"
proof -
  have same: "k_closest_vectors A argsort target_vec vectors k = Inl e \<longleftrightarrow>
      np_subtract A vectors target_vec = Inl e"
  proof (cases "np_subtract A vectors target_vec")
    case (Inl e')
    then show ?thesis by (simp add: k_closest_vectors_subtract_fails)
  next
    case (Inr d)
    then show ?thesis by (simp add: k_closest_vectors_after_subtract [OF assms])
  qed
  have ok: "\<exists>res. k_closest_vectors A argsort target_vec vectors k = Inr res \<and>
      ncols res = ncols vectors \<and> nrows res = length (slice_to (rows vectors) k)"
    if "length target_vec = 1 \<or> ncols vectors = 1"
  proof -
    from that obtain d where d: "np_subtract A vectors target_vec = Inr d"
      by (cases "np_subtract A vectors target_vec") (auto simp: np_subtract_error_iff)
    let ?ds = "np_sqrt A (np_sum_axis1 A (np_square A d))"
    have "length ?ds = length (rows vectors)"
      using np_subtract_rows [OF d]
      by (simp add: np_sqrt_def np_sum_axis1_def np_square_def)
    then have "length (slice_to (argsort ?ds) k) = length (slice_to (rows vectors) k)"
      by (simp add: slice_to_def argsort_length [OF assms])
    then show ?thesis
      by (simp add: k_closest_vectors_after_subtract [OF assms d] nrows_def)
  qed
  show ?thesis
    using same ok by (simp add: np_subtract_error_iff)
qed

text \<open>
  The theorem at a query of length 3 against rows of length 2, which raises, and at a
  query of length 1, which does not.
\<close>

theorem k_closest_vectors_raises_iff_witness:
  "argsort_spec exact (argsort_stable exact) \<and>
   k_closest_vectors exact (argsort_stable exact) [0, 0, 0] example_vectors 2 = Inl ValueError \<and>
   np_subtract exact example_vectors [0, 0, 0] = Inl ValueError \<and>
   length [1 :: real] = 1 \<and>
   k_closest_vectors exact (argsort_stable exact) [1] example_vectors 2 =
     Inr \<lparr>ncols = 2, rows = [[1, 0], [0, 2]]\<rparr>"
proof -
  have "k_closest_vectors exact (argsort_stable exact) [0, 0, 0] example_vectors 2 = Inl ValueError"
    and "np_subtract exact example_vectors [0, 0, 0] = Inl ValueError"
    using k_closest_vectors_raises_iff [OF argsort_stable_spec [of exact],
        of "[0, 0, 0]" example_vectors 2 ValueError]
    by (auto simp: example_vectors_def)
  moreover have "k_closest_vectors exact (argsort_stable exact) [1] example_vectors 2 =
     Inr \<lparr>ncols = 2, rows = [[1, 0], [0, 2]]\<rparr>"
    by (simp add: k_closest_vectors_def example_vectors_def np_subtract_def broadcast_shape_def
      broadcast_to_def np_square_def np_sum_axis1_def np_sqrt_def slice_to_def np_take_def
      nrows_def argsort_stable_def exact_def Let_def upt_rec numeral_nat)
  ultimately show ?thesis using argsort_stable_spec [of exact] by simp
qed

text \<open>
  Claim C3 as first stated, an error for every query whose length differs from the
  rows', fails: the query \<open>[1]\<close> against rows of length 2 returns two rows, in exact
  arithmetic, and so does the query \<open>[0]\<close> in float64.
\<close>

theorem mismatch_without_error_counterexample:
  "length [1 :: real] \<noteq> ncols example_vectors \<and>
   k_closest_vectors exact (argsort_stable exact) [1] example_vectors 2 =
     Inr \<lparr>ncols = 2, rows = [[1, 0], [0, 2]]\<rparr> \<and>
   length [Fin 0] \<noteq> ncols example_f64 \<and>
   k_closest_vectors float64 (argsort_stable float64) [Fin 0] example_f64 2 =
     Inr \<lparr>ncols = 2, rows = [[Fin 1, Fin 0], [Fin 0, Fin 2]]\<rparr>"
proof -
  have "k_closest_vectors exact (argsort_stable exact) [1] example_vectors 2 =
     Inr \<lparr>ncols = 2, rows = [[1, 0], [0, 2]]\<rparr>"
    by (simp add: k_closest_vectors_def example_vectors_def np_subtract_def broadcast_shape_def
      broadcast_to_def np_square_def np_sum_axis1_def np_sqrt_def slice_to_def np_take_def
      nrows_def argsort_stable_def exact_def Let_def upt_rec numeral_nat)
  then show ?thesis
    using broadcast_f64_run by (simp add: example_vectors_def example_f64_def)
qed




text \<open>
  Claim C5, as amended. For a well-formed matrix, a query of the rows' length and
  \<open>0 \<le> k \<le> n\<close>, the rows returned are the rows at the first \<open>k\<close> indices of the
  argsort of the distance array; they come in non-decreasing order of the distances
  that the function computes, in the arithmetic of the arrays and in NumPy's sort
  order, and for \<open>k > 0\<close> no row of the matrix has a smaller computed distance than
  the first of them. In exact arithmetic the computed distance is the Euclidean
  distance.
\<close>

theorem k_closest_vectors_distance_order:
  assumes "argsort_spec A argsort"
    and "wf_ndarray2 vectors"
    and "length target_vec = ncols vectors"
    and "0 \<le> k" and "k \<le> int (nrows vectors)"
  shows "(\<exists>res. k_closest_vectors A argsort target_vec vectors k = Inr res \<and>
           rows res = map (\<lambda>i. rows vectors ! i)
                        (take (nat k) (argsort (distances_of A target_vec vectors))) \<and>
           sorted (map (distance_rank A target_vec) (rows res)) \<and>
           (0 < k \<longrightarrow> (\<forall>v \<in> set (rows vectors).
              distance_rank A target_vec (hd (rows res)) \<le> distance_rank A target_vec v))) \<and>
         (\<forall>r u. length r = length u \<longrightarrow> distance_rank exact u r = euclidean r u)"
proof -
  let ?ds = "distances_of A target_vec vectors"
  let ?idx = "take (nat k) (argsort ?ds)"
  let ?res = "\<lparr>ncols = ncols vectors, rows = map (\<lambda>i. rows vectors ! i) ?idx\<rparr>"
  have run: "k_closest_vectors A argsort target_vec vectors k = Inr ?res"
    using assms(4) by (simp only: k_closest_vectors_rows [OF assms(1-3)] slice_to_nonneg)
  have srt: "sorted (map (distance_rank A target_vec) (rows ?res))"
    using returned_sorted [OF assms(1), of target_vec vectors "nat k"] by simp
  have first: "distance_rank A target_vec (hd (rows ?res)) \<le> distance_rank A target_vec v"
    if "0 < k" and "v \<in> set (rows vectors)" for v
  proof -
    have len: "length (argsort ?ds) = nrows vectors"
      by (simp add: argsort_length [OF assms(1)] length_distances_of)
    from that(2) obtain j where j: "j < nrows vectors" "rows vectors ! j = v"
      by (auto simp: in_set_conv_nth nrows_def)
    have pos: "0 < nrows vectors" using j by simp
    have "j \<in> set (argsort ?ds)"
      using j by (simp add: argsort_set [OF assms(1)] length_distances_of)
    then obtain b where b: "b < nrows vectors" "argsort ?ds ! b = j"
      using len by (auto simp: in_set_conv_nth)
    have i0: "argsort ?ds ! 0 < nrows vectors"
    proof -
      have "argsort ?ds ! 0 \<in> set (argsort ?ds)" using pos len by simp
      then show ?thesis by (simp add: argsort_set [OF assms(1)] length_distances_of)
    qed
    have "sort_rank A (?ds ! (argsort ?ds ! 0)) \<le> sort_rank A (?ds ! (argsort ?ds ! b))"
      using b(1) by (intro argsort_nth_mono [OF assms(1)]) (simp_all add: length_distances_of)
    then have "distance_rank A target_vec (rows vectors ! (argsort ?ds ! 0))
        \<le> distance_rank A target_vec v"
      using i0 j b by (simp add: distances_of_nth)
    moreover have "hd (rows ?res) = rows vectors ! (argsort ?ds ! 0)"
    proof -
      have ne: "?idx \<noteq> []" using that(1) pos len by (auto simp: take_eq_Nil)
      then have "hd ?idx = ?idx ! 0" by (rule hd_conv_nth)
      also have "\<dots> = argsort ?ds ! 0" using that(1) by simp
      finally show ?thesis using ne by (simp add: hd_map)
    qed
    ultimately show ?thesis by simp
  qed
  have "\<exists>res. k_closest_vectors A argsort target_vec vectors k = Inr res \<and>
           rows res = map (\<lambda>i. rows vectors ! i)
                        (take (nat k) (argsort (distances_of A target_vec vectors))) \<and>
           sorted (map (distance_rank A target_vec) (rows res)) \<and>
           (0 < k \<longrightarrow> (\<forall>v \<in> set (rows vectors).
              distance_rank A target_vec (hd (rows res)) \<le> distance_rank A target_vec v))"
    using run srt first by (intro exI [of _ ?res]) simp
  then show ?thesis by (simp add: exact_distance)
qed

text \<open>
  The theorem in float64 at the example: the rows come at the computed distances 1
  and 2, and 1 is the least. In exact arithmetic the computed distance of \<open>[3, 4]\<close>
  is its Euclidean distance.
\<close>

theorem k_closest_vectors_distance_order_witness:
  "argsort_spec float64 (argsort_stable float64) \<and> wf_ndarray2 example_f64 \<and>
   length [Fin 0, Fin 0] = ncols example_f64 \<and>
   (0::int) \<le> 2 \<and> 2 \<le> int (nrows example_f64) \<and> (0::int) < 2 \<and>
   k_closest_vectors float64 (argsort_stable float64) [Fin 0, Fin 0] example_f64 2 =
     Inr \<lparr>ncols = 2, rows = [[Fin 1, Fin 0], [Fin 0, Fin 2]]\<rparr> \<and>
   sorted (map (distance_rank float64 [Fin 0, Fin 0]) [[Fin 1, Fin 0], [Fin 0, Fin 2]]) \<and>
   distance_rank float64 [Fin 0, Fin 0] [Fin 1, Fin 0]
     \<le> distance_rank float64 [Fin 0, Fin 0] [Fin 3, Fin 4] \<and>
   length [3, 4 :: real] = length [0, 0 :: real] \<and>
   distance_rank exact [0, 0] [3, 4] = euclidean [3, 4] [0, 0]"
proof -
  let ?t = "[Fin 0, Fin 0]"
  have h1: "argsort_spec float64 (argsort_stable float64)"
    by (rule argsort_stable_spec)
  have h3: "length ?t = ncols example_f64"
    by (simp add: example_f64_def)
  have h4: "(0::int) \<le> 2" by simp
  have h5: "2 \<le> int (nrows example_f64)"
    by (simp add: nrows_def example_f64_def)
  have h7: "length [3, 4 :: real] = length [0, 0 :: real]" by simp
  from k_closest_vectors_distance_order [OF h1 example_f64_wf h3 h4 h5]
  have "\<forall>r u :: real list. length r = length u \<longrightarrow>
      distance_rank exact u r = euclidean r u"
    by (rule conjunct2)
  with h7 have ex: "distance_rank exact [0, 0] [3, 4] = euclidean [3, 4] [0, 0]"
    by blast
  have h8: "(0::int) < 2" by simp
  from k_closest_vectors_distance_order [OF h1 example_f64_wf h3 h4 h5]
  obtain res where res:
    "k_closest_vectors float64 (argsort_stable float64) ?t example_f64 2 = Inr res"
    "sorted (map (distance_rank float64 ?t) (rows res))"
    "(0::int) < 2 \<longrightarrow> (\<forall>v \<in> set (rows example_f64).
        distance_rank float64 ?t (hd (rows res)) \<le> distance_rank float64 ?t v)"
    by blast
  from res(1) have eq: "res = \<lparr>ncols = 2, rows = [[Fin 1, Fin 0], [Fin 0, Fin 2]]\<rparr>"
    by (simp add: example_f64_run)
  have "distance_rank float64 ?t [Fin 1, Fin 0] \<le> distance_rank float64 ?t [Fin 3, Fin 4]"
    using res(3) by (simp add: eq example_f64_def)
  with res(1,2) eq h1 h3 h4 h5 h8 example_f64_wf h7 ex show ?thesis by simp
qed

text \<open>
  Claim C5 as first stated, with the Euclidean distance of the rows, fails in
  float64 and in int64. For the float64 rows \<open>[2\<^sup>2\<^sup>7, 1]\<close> and \<open>[2\<^sup>2\<^sup>7, 0]\<close>, the query
  \<open>[0, 0]\<close> and \<open>k = 2\<close> the rows are returned in this order, the farther one first.
  For the int64 rows \<open>[2\<^sup>3\<^sup>2, 0]\<close> and \<open>[1, 0]\<close> the farther row comes first as well,
  and no argsort that meets the contract returns them in the order of their
  Euclidean distances.
\<close>

theorem first_row_not_closest_counterexample:
  "k_closest_vectors float64 (argsort_stable float64) [Fin 0, Fin 0] close_f64 2 =
     Inr \<lparr>ncols = 2, rows = [[Fin (2 ^ 27), Fin 1], [Fin (2 ^ 27), Fin 0]]\<rparr> \<and>
   \<not> sorted (map (\<lambda>r. euclidean (map f64_value r) (map f64_value [Fin 0, Fin 0]))
      [[Fin (2 ^ 27), Fin 1], [Fin (2 ^ 27), Fin 0]]) \<and>
   euclidean (map f64_value [Fin (2 ^ 27), Fin 0]) (map f64_value [Fin 0, Fin 0]) <
   euclidean (map f64_value (hd [[Fin (2 ^ 27), Fin 1], [Fin (2 ^ 27), Fin 0]]))
     (map f64_value [Fin 0, Fin 0]) \<and>
   k_closest_vectors int64 (argsort_stable int64) [0, 0] wrapped_i64 2 =
     Inr \<lparr>ncols = 2, rows = [[2 ^ 32, 0], [1, 0]]\<rparr> \<and>
   euclidean [1, 0] [0, 0] < euclidean (hd [[2 ^ 32, 0], [1, 0]]) [0, 0] \<and>
   \<not> (\<exists>argsort. argsort_spec int64 argsort \<and>
        k_closest_vectors int64 argsort [0, 0] wrapped_i64 2 =
          Inr \<lparr>ncols = 2, rows = [[1, 0], [2 ^ 32, 0]]\<rparr>)"
proof -
  have "k_closest_vectors float64 (argsort_stable float64) [Fin 0, Fin 0] close_f64 2 =
     Inr \<lparr>ncols = 2, rows = [[Fin (2 ^ 27), Fin 1], [Fin (2 ^ 27), Fin 0]]\<rparr>"
    by (simp add: close_f64_run slice_to_def)
  moreover have "k_closest_vectors int64 (argsort_stable int64) [0, 0] wrapped_i64 2 =
     Inr \<lparr>ncols = 2, rows = [[2 ^ 32, 0], [1, 0]]\<rparr>"
    by (simp add: wrapped_stable_run slice_to_def)
  moreover have "\<not> (\<exists>argsort. argsort_spec int64 argsort \<and>
        k_closest_vectors int64 argsort [0, 0] wrapped_i64 2 =
          Inr \<lparr>ncols = 2, rows = [[1, 0], [2 ^ 32, 0]]\<rparr>)"
    using wrapped_never_in_order by fastforce
  moreover have "euclidean [1, 0] [0, 0] < euclidean (hd [[2 ^ 32, 0], [1, 0]]) [0, 0]"
    using wrapped_true_distances by simp
  moreover have "euclidean (map f64_value [Fin (2 ^ 27), Fin 0]) (map f64_value [Fin 0, Fin 0]) <
   euclidean (map f64_value (hd [[Fin (2 ^ 27), Fin 1], [Fin (2 ^ 27), Fin 0]]))
     (map f64_value [Fin 0, Fin 0])"
    using close_true_distances by simp
  ultimately show ?thesis
    using close_not_sorted by (intro conjI) assumption+
qed

text \<open>
  Claim C6, as amended. With a well-formed matrix and a query of the rows' length
  the call returns for every integer \<open>k\<close>, the rows in non-decreasing order of their
  computed distances. For \<open>k \<ge> 0\<close> there are \<open>min k n\<close> of them, and for \<open>k \<ge> n\<close> they
  are all \<open>n\<close> rows of the matrix. In exact arithmetic the computed distance is the
  Euclidean distance.
\<close>

theorem k_closest_vectors_any_k:
  assumes "argsort_spec A argsort"
    and "wf_ndarray2 vectors"
    and "length target_vec = ncols vectors"
  shows "(\<exists>res. k_closest_vectors A argsort target_vec vectors k = Inr res \<and>
           ncols res = ncols vectors \<and>
           sorted (map (distance_rank A target_vec) (rows res)) \<and>
           (0 \<le> k \<longrightarrow> nrows res = min (nat k) (nrows vectors)) \<and>
           (int (nrows vectors) \<le> k \<longrightarrow> mset (rows res) = mset (rows vectors))) \<and>
         (\<forall>r u. length r = length u \<longrightarrow> distance_rank exact u r = euclidean r u)"
proof -
  let ?ds = "distances_of A target_vec vectors"
  let ?n = "if k < 0 then nat (int (length (argsort ?ds)) + k) else nat k"
  let ?res = "\<lparr>ncols = ncols vectors,
               rows = map (\<lambda>i. rows vectors ! i) (take ?n (argsort ?ds))\<rparr>"
  have len: "length (argsort ?ds) = nrows vectors"
    by (simp add: argsort_length [OF assms(1)] length_distances_of)
  have run: "k_closest_vectors A argsort target_vec vectors k = Inr ?res"
    by (simp only: k_closest_vectors_rows [OF assms] slice_to_take)
  have srt: "sorted (map (distance_rank A target_vec) (rows ?res))"
    using returned_sorted [OF assms(1), of target_vec vectors ?n] by simp
  have count: "nrows ?res = min (nat k) (nrows vectors)" if "0 \<le> k"
    using that len by (simp add: nrows_def min.commute)
  have all: "mset (rows ?res) = mset (rows vectors)" if "int (nrows vectors) \<le> k"
  proof -
    from that len have "take ?n (argsort ?ds) = argsort ?ds" by simp
    then have "rows ?res = map (\<lambda>i. rows vectors ! i) (argsort ?ds)" by simp
    then show ?thesis
      using rows_permuted [OF assms(1), of ?ds vectors] by (simp add: length_distances_of)
  qed
  have "\<exists>res. k_closest_vectors A argsort target_vec vectors k = Inr res \<and>
           ncols res = ncols vectors \<and>
           sorted (map (distance_rank A target_vec) (rows res)) \<and>
           (0 \<le> k \<longrightarrow> nrows res = min (nat k) (nrows vectors)) \<and>
           (int (nrows vectors) \<le> k \<longrightarrow> mset (rows res) = mset (rows vectors))"
    using run srt count all by (intro exI [of _ ?res]) simp
  then show ?thesis by (simp add: exact_distance)
qed

text \<open>
  The theorem in float64 at the example with \<open>k = 5\<close>, beyond its three rows. In
  exact arithmetic the computed distance of \<open>[3, 4]\<close> is its Euclidean distance.
\<close>

theorem k_closest_vectors_any_k_witness:
  "argsort_spec float64 (argsort_stable float64) \<and> wf_ndarray2 example_f64 \<and>
   length [Fin 0, Fin 0] = ncols example_f64 \<and>
   (0::int) \<le> 5 \<and> int (nrows example_f64) \<le> 5 \<and>
   k_closest_vectors float64 (argsort_stable float64) [Fin 0, Fin 0] example_f64 5 =
     Inr \<lparr>ncols = 2, rows = [[Fin 1, Fin 0], [Fin 0, Fin 2], [Fin 3, Fin 4]]\<rparr> \<and>
   nrows \<lparr>ncols = 2, rows = [[Fin 1, Fin 0], [Fin 0, Fin 2], [Fin 3, Fin 4]]\<rparr> =
     min (nat 5) (nrows example_f64) \<and>
   mset [[Fin 1, Fin 0], [Fin 0, Fin 2], [Fin 3, Fin 4]] = mset (rows example_f64) \<and>
   sorted (map (distance_rank float64 [Fin 0, Fin 0])
     [[Fin 1, Fin 0], [Fin 0, Fin 2], [Fin 3, Fin 4]]) \<and>
   length [3, 4 :: real] = length [0, 0 :: real] \<and>
   distance_rank exact [0, 0] [3, 4] = euclidean [3, 4] [0, 0]"
proof -
  let ?t = "[Fin 0, Fin 0]"
  have h1: "argsort_spec float64 (argsort_stable float64)"
    by (rule argsort_stable_spec)
  have h3: "length ?t = ncols example_f64"
    by (simp add: example_f64_def)
  have h5: "int (nrows example_f64) \<le> 5"
    by (simp add: nrows_def example_f64_def)
  have h7: "length [3, 4 :: real] = length [0, 0 :: real]" by simp
  from k_closest_vectors_any_k [OF h1 example_f64_wf h3, where k = 5]
  have "\<forall>r u :: real list. length r = length u \<longrightarrow>
      distance_rank exact u r = euclidean r u"
    by (rule conjunct2)
  with h7 have ex: "distance_rank exact [0, 0] [3, 4] = euclidean [3, 4] [0, 0]"
    by blast
  have h8: "(0::int) \<le> 5" by simp
  from k_closest_vectors_any_k [OF h1 example_f64_wf h3, where k = 5]
  obtain res where res:
    "k_closest_vectors float64 (argsort_stable float64) ?t example_f64 5 = Inr res"
    "sorted (map (distance_rank float64 ?t) (rows res))"
    "(0::int) \<le> 5 \<longrightarrow> nrows res = min (nat 5) (nrows example_f64)"
    "int (nrows example_f64) \<le> 5 \<longrightarrow> mset (rows res) = mset (rows example_f64)"
    by blast
  from res(1) have eq:
    "res = \<lparr>ncols = 2, rows = [[Fin 1, Fin 0], [Fin 0, Fin 2], [Fin 3, Fin 4]]\<rparr>"
    by (simp add: example_f64_run_all)
  from res(3) have "nrows res = min (nat 5) (nrows example_f64)" by simp
  moreover from res(4) h5 have "mset (rows res) = mset (rows example_f64)" by simp
  moreover note res(2)
  ultimately show ?thesis
    using h1 example_f64_wf h3 h5 example_f64_run_all h7 h8 ex by (simp add: eq)
qed

text \<open>
  Claim C6 as first stated, all rows sorted by their Euclidean distance, fails in
  float64 and in int64. For the float64 rows \<open>[2\<^sup>2\<^sup>7, 1]\<close> and \<open>[2\<^sup>2\<^sup>7, 0]\<close>, the query
  \<open>[0, 0]\<close> and \<open>k = 5\<close> both rows are returned, the farther one first. For the
  int64 rows \<open>[2\<^sup>3\<^sup>2, 0]\<close> and \<open>[1, 0]\<close> both are returned, the farther one first,
  and no argsort that meets the contract returns them in the order of their
  Euclidean distances.
\<close>

theorem all_rows_not_in_distance_order_counterexample:
  "int (nrows close_f64) \<le> 5 \<and>
   k_closest_vectors float64 (argsort_stable float64) [Fin 0, Fin 0] close_f64 5 =
     Inr \<lparr>ncols = 2, rows = [[Fin (2 ^ 27), Fin 1], [Fin (2 ^ 27), Fin 0]]\<rparr> \<and>
   \<not> sorted (map (\<lambda>r. euclidean (map f64_value r) (map f64_value [Fin 0, Fin 0]))
      [[Fin (2 ^ 27), Fin 1], [Fin (2 ^ 27), Fin 0]]) \<and>
   int (nrows wrapped_i64) \<le> 5 \<and>
   k_closest_vectors int64 (argsort_stable int64) [0, 0] wrapped_i64 5 =
     Inr \<lparr>ncols = 2, rows = [[2 ^ 32, 0], [1, 0]]\<rparr> \<and>
   \<not> sorted (map (\<lambda>r. euclidean r [0, 0]) [[2 ^ 32, 0], [1, 0]]) \<and>
   \<not> (\<exists>argsort. argsort_spec int64 argsort \<and>
        k_closest_vectors int64 argsort [0, 0] wrapped_i64 5 =
          Inr \<lparr>ncols = 2, rows = [[1, 0], [2 ^ 32, 0]]\<rparr>)"
proof -
  have "k_closest_vectors float64 (argsort_stable float64) [Fin 0, Fin 0] close_f64 5 =
     Inr \<lparr>ncols = 2, rows = [[Fin (2 ^ 27), Fin 1], [Fin (2 ^ 27), Fin 0]]\<rparr>"
    by (simp add: close_f64_run slice_to_def)
  moreover have "int (nrows close_f64) \<le> 5"
    by (simp add: nrows_def close_f64_def)
  moreover have "int (nrows wrapped_i64) \<le> 5"
    by (simp add: nrows_def wrapped_i64_def)
  moreover have "k_closest_vectors int64 (argsort_stable int64) [0, 0] wrapped_i64 5 =
     Inr \<lparr>ncols = 2, rows = [[2 ^ 32, 0], [1, 0]]\<rparr>"
    by (simp add: wrapped_stable_run slice_to_def)
  moreover have "\<not> sorted (map (\<lambda>r. euclidean r [0, 0]) [[2 ^ 32, 0], [1, 0 :: real]])"
    using wrapped_true_distances by simp
  moreover have "\<not> (\<exists>argsort. argsort_spec int64 argsort \<and>
        k_closest_vectors int64 argsort [0, 0] wrapped_i64 5 =
          Inr \<lparr>ncols = 2, rows = [[1, 0], [2 ^ 32, 0]]\<rparr>)"
    using wrapped_never_in_order by fastforce
  ultimately show ?thesis
    using close_not_sorted by (intro conjI) assumption+
qed

text \<open>
  Claim C7. Every vector stored in a collection has the collection's size. The
  invariant is kept by creating a collection, by uploading any points and by
  searching, which changes nothing. The \<open>movies\<close> collection is created with the
  size that the encoder reports, the upload of the movie records succeeds, and the
  vectors then stored are the encoder's embeddings of the overviews, each of that
  size.
\<close>

theorem collection_vectors_share_dimension:
  assumes "dimension_invariant db" and "fixed_length enc"
  shows "dimension_invariant (recreate_collection db name params) \<and>
         dimension_invariant (snd (upload_points db name pts)) \<and>
         snd (search similarity db name query_vector limit) = db \<and>
         dimension_invariant (snd (build_movies_collection enc movies db)) \<and>
         (\<exists>c. build_movies_collection enc movies db = (None, db(''movies'' \<mapsto> c)) \<and>
              vec_size (config c) = get_sentence_embedding_dimension enc \<and>
              map vector (points c) = get_embeddings enc movies \<and>
              list_all (\<lambda>p. length (vector p) = get_sentence_embedding_dimension enc) (points c))"
proof -
  let ?recs = "movie_records (get_embeddings enc movies) movies"
  let ?c = "\<lparr>config = \<lparr>vec_size = get_sentence_embedding_dimension enc, metric = COSINE\<rparr>,
             points = ?recs\<rparr>"
  have 1: "dimension_invariant (recreate_collection db name params)"
    using assms(1) by (rule recreate_collection_invariant)
  have 2: "dimension_invariant (snd (upload_points db name pts))"
    using assms(1) by (rule upload_points_invariant)
  have 3: "snd (search similarity db name query_vector limit) = db"
    by (rule search_unchanged)
  have "dimension_invariant (recreate_collection db ''movies''
          \<lparr>vec_size = get_sentence_embedding_dimension enc, metric = COSINE\<rparr>)"
    using assms(1) by (rule recreate_collection_invariant)
  then have 4: "dimension_invariant (snd (build_movies_collection enc movies db))"
    unfolding build_movies_collection_def by (rule upload_points_invariant)
  have run: "build_movies_collection enc movies db = (None, db(''movies'' \<mapsto> ?c))"
    using assms(2) by (rule build_movies_collection_run)
  have vs: "map vector (points ?c) = get_embeddings enc movies"
    by (simp add: movie_records_vectors get_embeddings_def)
  have "snd (build_movies_collection enc movies db) ''movies'' = Some ?c"
    by (simp add: run)
  moreover from 4 have "\<forall>name c. snd (build_movies_collection enc movies db) name = Some c
      \<longrightarrow> same_dimension c"
    by (simp only: dimension_invariant_def)
  ultimately have "same_dimension ?c" by blast
  then have dims: "list_all (\<lambda>p. length (vector p) = get_sentence_embedding_dimension enc) (points ?c)"
    by (simp add: same_dimension_def)
  have "\<exists>c. build_movies_collection enc movies db = (None, db(''movies'' \<mapsto> c)) \<and>
      vec_size (config c) = get_sentence_embedding_dimension enc \<and>
      map vector (points c) = get_embeddings enc movies \<and>
      list_all (\<lambda>p. length (vector p) = get_sentence_embedding_dimension enc) (points c)"
    using run vs dims by (intro exI [of _ ?c]) simp
  with 1 2 3 4 show ?thesis by blast
qed

text \<open>
  The theorem for an encoder of dimension 2 and two movies, starting from a database
  without collections.
\<close>

theorem collection_vectors_share_dimension_witness:
  "dimension_invariant Map.empty \<and> fixed_length example_encoder \<and>
   fst (build_movies_collection example_encoder example_movies Map.empty) = None \<and>
   (\<exists>c. snd (build_movies_collection example_encoder example_movies Map.empty) ''movies'' = Some c \<and>
        vec_size (config c) = 2 \<and> map vector (points c) = [[23, 1], [13, 1]])"
proof -
  from collection_vectors_share_dimension [OF empty_invariant example_encoder_fixed_length,
      of "''movies''" "\<lparr>vec_size = 2, metric = COSINE\<rparr>" "[]" "\<lambda>a b. 0" "[]" 0 example_movies]
  obtain c where c: "build_movies_collection example_encoder example_movies Map.empty =
        (None, Map.empty(''movies'' \<mapsto> c))"
      "vec_size (config c) = get_sentence_embedding_dimension example_encoder"
      "map vector (points c) = get_embeddings example_encoder example_movies"
    by blast
  have "get_embeddings example_encoder example_movies = [[23, 1], [13, 1]]"
    by (simp add: get_embeddings_def encode_def example_encoder_def example_movies_def)
  moreover have "get_sentence_embedding_dimension example_encoder = 2"
    by (simp add: get_sentence_embedding_dimension_def example_encoder_def)
  ultimately show ?thesis
    using c empty_invariant example_encoder_fixed_length by simp
qed

text \<open>
  Claim C8, as amended. \<open>ask\<close>, as the exercise sheet has it, is a placeholder: for
  every question and every setting it calls no external service, leaving the list of
  calls as it was, and returns \<open>None\<close>; so does \<open>get_records\<close>. The order encoder,
  similarity search, prompt, language model is what the sheet asks its reader to
  write.
\<close>

theorem ask_is_a_placeholder:
  "fst (ask question max_results system prompt_template context_template qdrant collection calls)
     = PyNone \<and>
   snd (ask question max_results system prompt_template context_template qdrant collection calls)
     = calls \<and>
   get_records query encoder client collection max_results calls = (PyNone, calls)"
  by (simp add: ask_def get_records_def)

text \<open>
  Claim C8 as first stated, the four steps in order and the completion returned,
  fails on the sheet's own call \<^verbatim>\<open>ask(question=question)\<close>: no call is made and the
  result is \<open>None\<close>.
\<close>

theorem ask_makes_no_call_counterexample:
  "ask Ellipsis (PyInt 10) Ellipsis Ellipsis Ellipsis Ellipsis Ellipsis [] = (PyNone, [])"
  by (simp add: ask_def)

text \<open>
  Claim C9. \<open>k_closest_vectors\<close> modifies neither argument. Over the store, a call
  whose arguments are a vector and a matrix leaves a store that extends the one it
  was given: both arguments and every other array that existed hold the same
  elements afterwards; the result, if any, is a new array, equal to the value of the
  function on the arguments; and a second call with the same arguments has the same
  outcome, so nothing is kept between calls. This holds in every arithmetic.
\<close>

theorem k_closest_vectors_heap_preserves_arguments:
  assumes "lookup h target_vec = Some (Arr1 t)"
    and "lookup h vectors = Some (Arr2 m)"
    and "k_closest_vectors_heap A argsort target_vec vectors k h = (r, h')"
  shows "prefix h h' \<and>
         lookup h' target_vec = Some (Arr1 t) \<and>
         lookup h' vectors = Some (Arr2 m) \<and>
         (\<forall>p < length h. lookup h' p = lookup h p) \<and>
         (\<forall>q. r = Inr q \<longrightarrow> length h \<le> q) \<and>
         result_of (r, h') =
           map_sum id (\<lambda>res. Some (Arr2 res)) (k_closest_vectors A argsort t m k) \<and>
         result_of (k_closest_vectors_heap A argsort target_vec vectors k h') = result_of (r, h')"
proof -
  have pre: "prefix h h'"
    using frame_k_closest_vectors_heap [of A argsort target_vec vectors k] assms(3)
    by (auto simp: frame_def dest: spec [of _ h])
  then obtain zs where h': "h' = h @ zs" by (rule prefixE)
  have t': "lookup h' target_vec = Some (Arr1 t)"
    unfolding h' using assms(1) by (rule lookup_append_old)
  have m': "lookup h' vectors = Some (Arr2 m)"
    unfolding h' using assms(2) by (rule lookup_append_old)
  have old: "lookup h' p = lookup h p" if "p < length h" for p
    using pre that by (rule lookup_prefix)
  have new: "length h \<le> q" if "r = Inr q" for q
  proof -
    from k_closest_vectors_heap_steps [OF assms(1,2)]
    obtain tmp where "k_closest_vectors_heap A argsort target_vec vectors k h =
        new_matrix (k_closest_vectors A argsort t m k) (h @ tmp)" ..
    with assms(3) that
    have "new_matrix (k_closest_vectors A argsort t m k) (h @ tmp) = (Inr q, h')"
      by simp
    then have "q = length (h @ tmp)" by (rule new_matrix_fresh)
    then show ?thesis by simp
  qed
  have res: "result_of (r, h') =
      map_sum id (\<lambda>res. Some (Arr2 res)) (k_closest_vectors A argsort t m k)"
    using k_closest_vectors_heap_run [OF assms(1,2), of A argsort k] by (simp only: assms(3))
  have again: "result_of (k_closest_vectors_heap A argsort target_vec vectors k h') =
      result_of (r, h')"
    using k_closest_vectors_heap_run [OF t' m', of A argsort k] by (simp only: res)
  show ?thesis
    using pre t' m' old new res again by blast
qed

text \<open>
  The theorem for a store holding the example query at address 0 and the example
  matrix at address 1: the result is allocated at address 8, after six temporaries.
\<close>

theorem k_closest_vectors_heap_preserves_arguments_witness:
  "lookup example_heap 0 = Some (Arr1 [0, 0]) \<and>
   lookup example_heap 1 = Some (Arr2 example_vectors) \<and>
   fst (k_closest_vectors_heap exact (argsort_stable exact) 0 1 2 example_heap) = Inr 8 \<and>
   lookup (snd (k_closest_vectors_heap exact (argsort_stable exact) 0 1 2 example_heap)) 0 =
     Some (Arr1 [0, 0]) \<and>
   lookup (snd (k_closest_vectors_heap exact (argsort_stable exact) 0 1 2 example_heap)) 1 =
     Some (Arr2 example_vectors) \<and>
   lookup (snd (k_closest_vectors_heap exact (argsort_stable exact) 0 1 2 example_heap)) 8 =
     Some (Arr2 \<lparr>ncols = 2, rows = [[1, 0], [0, 2]]\<rparr>)"
proof -
  let ?out = "k_closest_vectors_heap exact (argsort_stable exact) 0 1 2 example_heap"
  have h1: "lookup example_heap 0 = Some (Arr1 [0, 0])"
    by (simp add: lookup_def example_heap_def)
  have h2: "lookup example_heap 1 = Some (Arr2 example_vectors)"
    by (simp add: lookup_def example_heap_def)
  have h3: "?out = (fst ?out, snd ?out)" by simp
  from k_closest_vectors_heap_preserves_arguments [OF h1 h2 h3]
  have keep: "lookup (snd ?out) 0 = Some (Arr1 [0, 0])"
      "lookup (snd ?out) 1 = Some (Arr2 example_vectors)"
    and res: "result_of (fst ?out, snd ?out) =
      map_sum id (\<lambda>res. Some (Arr2 res))
        (k_closest_vectors exact (argsort_stable exact) [0, 0] example_vectors 2)"
    by blast+
  have addr: "fst ?out = Inr 8"
    using example_heap_run by simp
  from res addr
  have "lookup (snd ?out) 8 = Some (Arr2 \<lparr>ncols = 2, rows = [[1, 0], [0, 2]]\<rparr>)"
    by (simp add: result_of_def example_run)
  with h1 h2 keep addr show ?thesis by simp
qed

end
